(* ===== verification/Prelude.thy ===== *)
theory Prelude
  imports Main "HOL-Library.Word" "HOL-Library.Signed_Division"
begin

text \<open>
  Shared vocabulary of the development: the Go runtime behaviour the two source files
  rely on (truncating integer division that panics on zero, int64 values, the
  \<open>defer\<close> stack), the error values of the go-astiav binding (\<open>astiav.ErrEof\<close>,
  \<open>astiav.ErrEagain\<close>, \<open>errors.New\<close>), resource acquisition/release traces used to
  state ownership properties, and the list lemmas the component theories share.
\<close>

named_theorems go_simps \<open>unfolding rules of the Go runtime helpers\<close>
named_theorems container_wf \<open>container operations keep the container well-formed\<close>

section \<open>Go integers\<close>

type_synonym int64 = "64 word"

definition INT64_MAX :: int where
  "INT64_MAX = 2 ^ 63 - 1"

definition INT64_MIN :: int where
  "INT64_MIN = - (2 ^ 63)"

definition in_int64 :: "int \<Rightarrow> bool" where
  "in_int64 x \<longleftrightarrow> INT64_MIN \<le> x \<and> x \<le> INT64_MAX"

declare INT64_MAX_def [go_simps] INT64_MIN_def [go_simps] in_int64_def [go_simps]

datatype go_panic = DivideByZero | NonPositiveTickerInterval

text \<open>
  Go's \<open>/\<close> on integers truncates towards zero (\<open>sdiv\<close> of
  HOL-Library.Signed_Division) and panics on a zero divisor: \<open>Inl\<close> is the panic.
\<close>

definition go_div :: "int \<Rightarrow> int \<Rightarrow> go_panic + int" where
  "go_div a b = (if b = 0 then Inl DivideByZero else Inr (a sdiv b))"

declare go_div_def [go_simps]

lemma sdiv_nonneg_eq_div:
  "0 \<le> a \<Longrightarrow> 0 < b \<Longrightarrow> a sdiv (b::int) = a div b"
  by (simp add: signed_divide_int_def sgn_if)

lemma go_div_pos [simp]:
  "0 \<le> a \<Longrightarrow> 0 < b \<Longrightarrow> go_div a b = Inr (a div b)"
  by (simp add: go_div_def sdiv_nonneg_eq_div)

section \<open>Errors of the go-astiav binding\<close>

text \<open>
  \<open>astiav.Error\<close> wraps an FFmpeg \<open>AVERROR\<close> code; the code compares with
  \<open>errors.Is\<close> against \<open>astiav.ErrEof\<close> and \<open>astiav.ErrEagain\<close>. Errors created by
  \<open>errors.New\<close> carry their message.
\<close>

datatype averror = ErrEagain | ErrEof | ErrEinval | ErrEnomem | ErrOther int

datatype go_error = AvError averror | NewError string

section \<open>Resource traces\<close>

text \<open>
  An FFmpeg object is allocated and freed explicitly; Go's \<open>defer\<close> schedules the
  free. A run records the acquisitions and releases in order, and ownership properties
  are stated over that record.
\<close>

datatype 'r res_event = Acquire 'r | Release 'r

definition acquired :: "'r res_event list \<Rightarrow> 'r set" where
  "acquired tr = {r. Acquire r \<in> set tr}"

definition released :: "'r res_event list \<Rightarrow> 'r set" where
  "released tr = {r. Release r \<in> set tr}"

definition leaked :: "'r res_event list \<Rightarrow> 'r set" where
  "leaked tr = acquired tr - released tr"

lemma acquired_simps [simp]:
  "acquired [] = {}"
  "acquired (Acquire r # tr) = insert r (acquired tr)"
  "acquired (Release r # tr) = acquired tr"
  "acquired (tr @ tr') = acquired tr \<union> acquired tr'"
  by (auto simp: acquired_def)

lemma released_simps [simp]:
  "released [] = {}"
  "released (Release r # tr) = insert r (released tr)"
  "released (Acquire r # tr) = released tr"
  "released (tr @ tr') = released tr \<union> released tr'"
  by (auto simp: released_def)

lemma acquired_released_map [simp]:
  "acquired (map Acquire rs) = set rs" "released (map Acquire rs) = {}"
  "acquired (map Release rs) = {}" "released (map Release rs) = set rs"
  "acquired (map (\<lambda>x. Acquire (f x)) xs) = f ` set xs" "released (map (\<lambda>x. Acquire (f x)) xs) = {}"
  "acquired (map (\<lambda>x. Release (f x)) xs) = {}" "released (map (\<lambda>x. Release (f x)) xs) = f ` set xs"
  by (auto simp: acquired_def released_def)

lemma leaked_append_subset:
  "leaked (tr @ tr') \<subseteq> leaked tr \<union> leaked tr'"
  by (auto simp: leaked_def)

lemma sint_of_nat_mult:
  assumes "0 \<le> q" "int i * q \<le> INT64_MAX"
  shows "sint (word_of_nat i * (word_of_int q :: int64)) = int i * q"
proof -
  have "0 \<le> int i * q"
    using assms(1) by simp
  then have b: "- (2 ^ 63) \<le> int i * q" "int i * q < 2 ^ 63"
    using assms(2) by (simp_all add: INT64_MAX_def)
  have "word_of_nat i * (word_of_int q :: int64) = word_of_int (int i * q)"
    by (simp add: of_int_mult)
  then have "sint (word_of_nat i * (word_of_int q :: int64)) = signed_take_bit 63 (int i * q)"
    by (simp only: sint_sbintrunc') simp
  with b show ?thesis
    by (simp add: signed_take_bit_int_eq_self)
qed

section \<open>Shared list facts\<close>

lemma sint_mult_wrap:
  fixes n :: int64
  assumes "0 \<le> q" "INT64_MAX < uint n * q" "uint n * q < 2 ^ 64"
  shows "sint (n * word_of_int q) = uint n * q - 2 ^ 64"
proof -
  define x where "x = uint n * q"
  have "n * (word_of_int q :: int64) = word_of_int x"
    by (simp add: x_def of_int_mult)
  then have s: "sint (n * (word_of_int q :: int64)) = (2 ^ 63 + x) mod 2 ^ 64 - 2 ^ 63"
    by (simp only: int_word_sint) (simp, simp only: add.commute)
  have b: "0 \<le> x + 2 ^ 63 - 2 ^ 64" "x + 2 ^ 63 - 2 ^ 64 < (2::int) ^ 64"
    using assms(2,3) by (simp_all add: x_def INT64_MAX_def)
  have "(2 ^ 63 + x) mod 2 ^ 64 = (x + 2 ^ 63 - 2 ^ 64 + 2 ^ 64) mod (2::int) ^ 64"
    by (simp add: add.commute)
  also have "\<dots> = (x + 2 ^ 63 - 2 ^ 64) mod 2 ^ 64"
    by (simp only: mod_add_self2)
  also have "\<dots> = x + 2 ^ 63 - 2 ^ 64"
    using b by (rule mod_pos_pos_trivial)
  finally show ?thesis
    using s by (simp add: x_def)
qed

lemma sorted_wrt_map_mono:
  assumes "sorted_wrt R xs"
    and "\<And>x y. x \<in> set xs \<Longrightarrow> y \<in> set xs \<Longrightarrow> R x y \<Longrightarrow> S (f x) (f y)"
  shows "sorted_wrt S (map f xs)"
  using assms by (induction xs) (auto simp: sorted_wrt_map)

lemma sorted_wrt_less_upt_mult:
  "0 < (c::int) \<Longrightarrow> sorted_wrt (<) (map (\<lambda>i. int i * c) [a..<b])"
  by (simp add: sorted_wrt_map sorted_wrt_iff_nth_less)

lemma sorted_wrt_less_last:
  "sorted_wrt (<) xs \<Longrightarrow> x \<in> set xs \<Longrightarrow> x \<le> last (xs :: int list)"
  by (induction xs) (auto simp: less_imp_le)

lemma sorted_wrt_append_Cons_less:
  "sorted_wrt (<) (xs @ y # ys) \<Longrightarrow> x \<in> set xs \<Longrightarrow> x < (y::int)"
  by (simp add: sorted_wrt_append)

lemma drop_eq_ConsD:
  "drop m xs = y # ys \<Longrightarrow> take (Suc m) xs = take m xs @ [y] \<and> drop (Suc m) xs = ys"
  by (metis Cons_nth_drop_Suc drop_all list.distinct(1) list.inject not_le take_Suc_conv_app_nth)

end
