(* ===== verification/Timebase.thy ===== *)
theory Timebase
  imports Prelude
begin

text \<open>
  Time bases and timestamp rescaling. \<open>astiav.NewRational\<close> builds an \<open>AVRational\<close>;
  \<open>packet.RescaleTs\<close> (screencap.go, line 198) calls FFmpeg's
  \<open>av_packet_rescale_ts\<close>, which rescales pts, dts and a positive duration with
  \<open>av_rescale_q\<close>, i.e. \<open>av_rescale_rnd\<close> with rounding to nearest, ties away from
  zero. FFmpeg is outside the repository, so these definitions follow the spec
  (section 4.4: "a multiply/divide by the ratio of the two time bases, rounded
  consistently") and FFmpeg's documented arithmetic: the result is exact, and a result
  that does not fit int64 is \<open>INT64_MIN\<close> (\<open>AV_NOPTS_VALUE\<close>).
\<close>

record rational =
  num :: int
  den :: int

definition NewRational :: "int \<Rightarrow> int \<Rightarrow> rational" where
  "NewRational n d = \<lparr>num = n, den = d\<rparr>"

definition valid_tb :: "rational \<Rightarrow> bool" where
  "valid_tb tb \<longleftrightarrow> 0 < num tb \<and> 0 < den tb"

definition AV_NOPTS_VALUE :: int where
  "AV_NOPTS_VALUE = INT64_MIN"

text \<open>
  \<open>av_rescale_rnd(a, b, c, AV_ROUND_NEAR_INF)\<close>: a bad divisor or a negative
  multiplier gives \<open>INT64_MIN\<close>; a negative \<open>a\<close> is rescaled as
  \<open>-av_rescale_rnd(-max(a, -INT64_MAX), ...)\<close>; the rounding term is \<open>c / 2\<close>.
\<close>

definition av_rescale_rnd_near :: "int \<Rightarrow> int \<Rightarrow> int \<Rightarrow> int" where
  "av_rescale_rnd_near a b c =
     (if c \<le> 0 \<or> b < 0 then INT64_MIN
      else let a' = max a (- INT64_MAX);
               r = (\<bar>a'\<bar> * b + c div 2) div c
           in if INT64_MAX < r then INT64_MIN else sgn a' * r)"

definition av_rescale_q :: "int \<Rightarrow> rational \<Rightarrow> rational \<Rightarrow> int" where
  "av_rescale_q a bq cq = av_rescale_rnd_near a (num bq * den cq) (num cq * den bq)"

record packet =
  pkt_pts :: int
  pkt_dts :: int
  pkt_duration :: int

definition av_packet_rescale_ts :: "packet \<Rightarrow> rational \<Rightarrow> rational \<Rightarrow> packet" where
  "av_packet_rescale_ts p src dst =
     p\<lparr>pkt_pts := (if pkt_pts p \<noteq> AV_NOPTS_VALUE then av_rescale_q (pkt_pts p) src dst
                   else pkt_pts p),
       pkt_dts := (if pkt_dts p \<noteq> AV_NOPTS_VALUE then av_rescale_q (pkt_dts p) src dst
                   else pkt_dts p),
       pkt_duration := (if 0 < pkt_duration p then av_rescale_q (pkt_duration p) src dst
                        else pkt_duration p)\<rparr>"

text \<open>The exact rounding the rescale performs when nothing overflows.\<close>

definition round_near :: "int \<Rightarrow> int \<Rightarrow> int \<Rightarrow> int" where
  "round_near a b c = sgn a * ((\<bar>a\<bar> * b + c div 2) div c)"

definition rescale_fits :: "int \<Rightarrow> rational \<Rightarrow> rational \<Rightarrow> bool" where
  "rescale_fits a bq cq \<longleftrightarrow>
     - INT64_MAX \<le> a \<and> (\<bar>a\<bar> * (num bq * den cq) + (num cq * den bq) div 2) div (num cq * den bq) \<le> INT64_MAX"

section \<open>Rounding lemmas\<close>

lemma div_half_cancel:
  "0 < (c::int) \<Longrightarrow> (x * c + c div 2) div c = x"
  by simp

lemma round_near_nonneg_mono:
  "0 \<le> b \<Longrightarrow> 0 < c \<Longrightarrow> 0 \<le> x \<Longrightarrow> x \<le> y \<Longrightarrow>
     (x * b + c div 2) div c \<le> (y * b + c div 2) div (c::int)"
  by (intro zdiv_mono1) (auto intro: mult_right_mono)

lemma round_near_nonneg:
  "0 \<le> b \<Longrightarrow> 0 < c \<Longrightarrow> 0 \<le> x \<Longrightarrow> 0 \<le> (x * b + c div 2) div (c::int)"
  by (simp add: pos_imp_zdiv_nonneg_iff)

lemma round_near_mono:
  assumes "0 \<le> b" "0 < c" "a \<le> a'"
  shows "round_near a b c \<le> round_near a' b c"
proof (cases "0 \<le> a")
  case True
  with assms have "(a * b + c div 2) div c \<le> (a' * b + c div 2) div c"
    by (intro round_near_nonneg_mono) auto
  moreover have "0 \<le> (a * b + c div 2) div c"
    using True assms by (intro round_near_nonneg) auto
  ultimately show ?thesis
    using True assms by (auto simp: round_near_def sgn_if)
next
  case False
  show ?thesis
  proof (cases "0 \<le> a'")
    case True
    have "0 \<le> (a' * b + c div 2) div c"
      using True assms by (intro round_near_nonneg) auto
    moreover have "0 \<le> (\<bar>a\<bar> * b + c div 2) div c"
      using assms by (intro round_near_nonneg) auto
    ultimately show ?thesis
      using True False by (auto simp: round_near_def sgn_if)
  next
    case a': False
    with False assms have "(\<bar>a'\<bar> * b + c div 2) div c \<le> (\<bar>a\<bar> * b + c div 2) div c"
      by (intro round_near_nonneg_mono) auto
    with False a' show ?thesis
      by (simp add: round_near_def)
  qed
qed

lemma valid_tb_products:
  "valid_tb bq \<Longrightarrow> valid_tb cq \<Longrightarrow> 0 < num bq * den cq \<and> 0 < num cq * den bq"
  by (simp add: valid_tb_def)

lemma av_rescale_q_fits:
  assumes "valid_tb bq" "valid_tb cq" "rescale_fits a bq cq"
  shows "av_rescale_q a bq cq = round_near a (num bq * den cq) (num cq * den bq)"
proof -
  from assms(1,2) have pos: "0 < num bq * den cq" "0 < num cq * den bq"
    by (simp_all add: valid_tb_products)
  from assms(3) have "max a (- INT64_MAX) = a"
    by (simp add: rescale_fits_def)
  with pos assms(3) show ?thesis
    by (simp add: av_rescale_q_def av_rescale_rnd_near_def Let_def round_near_def
        rescale_fits_def)
qed

section \<open>Properties of the rescale\<close>

text \<open>
  Rescaling between equal, valid time bases is the identity on every int64
  timestamp except \<open>INT64_MIN\<close> (which FFmpeg clamps to \<open>-INT64_MAX\<close>), so
  the rescale on line 198 of screencap.go cannot move a packet while the stream keeps
  the encoder's time base.
\<close>

theorem av_rescale_q_same_tb:
  assumes "valid_tb tb" "- INT64_MAX \<le> a" "a \<le> INT64_MAX"
  shows "av_rescale_q a tb tb = a"
proof -
  let ?c = "num tb * den tb"
  from assms(1) have c: "0 < ?c" by (simp add: valid_tb_def)
  then have r: "(\<bar>a\<bar> * ?c + ?c div 2) div ?c = \<bar>a\<bar>" by (rule div_half_cancel)
  from assms(2,3) have "\<bar>a\<bar> \<le> INT64_MAX" by simp
  with c r assms(2) show ?thesis
    by (simp add: av_rescale_q_def av_rescale_rnd_near_def Let_def max_def mult.commute
        abs_mult_sgn)
qed

lemma av_rescale_q_same_tb_witness:
  "valid_tb (NewRational 1 90000) \<and> - INT64_MAX \<le> (27000::int) \<and> (27000::int) \<le> INT64_MAX \<and>
   av_rescale_q 27000 (NewRational 1 90000) (NewRational 1 90000) = 27000"
proof -
  have h: "valid_tb (NewRational 1 90000)" "- INT64_MAX \<le> (27000::int)" "(27000::int) \<le> INT64_MAX"
    by (simp_all add: valid_tb_def NewRational_def INT64_MAX_def)
  show ?thesis using h av_rescale_q_same_tb [OF h] by simp
qed

text \<open>
  Whatever the two time bases, the rescaled value is an int64: an overflowing
  result is replaced by \<open>INT64_MIN\<close>, never wrapped.
\<close>

theorem av_rescale_q_in_int64:
  "in_int64 (av_rescale_q a bq cq)"
proof -
  let ?b = "num bq * den cq" and ?c = "num cq * den bq"
  let ?a = "max a (- INT64_MAX)"
  let ?r = "(\<bar>?a\<bar> * ?b + ?c div 2) div ?c"
  show ?thesis
  proof (cases "?c \<le> 0 \<or> ?b < 0 \<or> INT64_MAX < ?r")
    case True
    then show ?thesis
      by (auto simp: av_rescale_q_def av_rescale_rnd_near_def Let_def in_int64_def
          INT64_MIN_def INT64_MAX_def)
  next
    case False
    then have "0 \<le> ?r" "?r \<le> INT64_MAX"
      by (auto intro: round_near_nonneg)
    with False show ?thesis
      by (auto simp: av_rescale_q_def av_rescale_rnd_near_def Let_def in_int64_def sgn_if
          INT64_MIN_def INT64_MAX_def)
  qed
qed

text \<open>
  The rescale is monotone: two timestamps in order stay in order after
  \<open>av_rescale_q\<close> between valid time bases, as long as neither result overflows.
  This is what keeps packets in timestamp order across line 198 of screencap.go.
\<close>

theorem av_rescale_q_mono:
  assumes "valid_tb bq" "valid_tb cq" "a \<le> a'"
    and "rescale_fits a bq cq" "rescale_fits a' bq cq"
  shows "av_rescale_q a bq cq \<le> av_rescale_q a' bq cq"
proof -
  have "0 \<le> num bq * den cq" "0 < num cq * den bq"
    using valid_tb_products [OF assms(1,2)] by auto
  with assms(3) have "round_near a (num bq * den cq) (num cq * den bq)
      \<le> round_near a' (num bq * den cq) (num cq * den bq)"
    by (rule round_near_mono [rotated 2]) 
  with assms show ?thesis
    by (simp add: av_rescale_q_fits)
qed

lemma av_rescale_q_mono_witness:
  "valid_tb (NewRational 1 90000) \<and> valid_tb (NewRational 1 1000) \<and> (1500::int) \<le> 3000 \<and>
   rescale_fits 1500 (NewRational 1 90000) (NewRational 1 1000) \<and>
   rescale_fits 3000 (NewRational 1 90000) (NewRational 1 1000) \<and>
   av_rescale_q 1500 (NewRational 1 90000) (NewRational 1 1000) = 17 \<and>
   av_rescale_q 3000 (NewRational 1 90000) (NewRational 1 1000) = 33"
proof -
  have h: "valid_tb (NewRational 1 90000)" "valid_tb (NewRational 1 1000)" "(1500::int) \<le> 3000"
    "rescale_fits 1500 (NewRational 1 90000) (NewRational 1 1000)"
    "rescale_fits 3000 (NewRational 1 90000) (NewRational 1 1000)"
    by (simp_all add: valid_tb_def NewRational_def rescale_fits_def INT64_MAX_def)
  have "av_rescale_q 1500 (NewRational 1 90000) (NewRational 1 1000) = 17"
    "av_rescale_q 3000 (NewRational 1 90000) (NewRational 1 1000) = 33"
    by (simp_all add: av_rescale_q_def av_rescale_rnd_near_def NewRational_def INT64_MAX_def)
  with h av_rescale_q_mono [OF h] show ?thesis by simp
qed

end
