(* ===== verification/FrameConverter.thy ===== *)
theory FrameConverter
  imports Timebase
begin

text \<open>
  The frame converter: \<open>ImageRGBAtoAVFrame\<close> (src/unnamed/part_000, lines 28-104)
  turns a captured \<open>image.RGBA\<close> into a YUV 4:2:0 \<open>astiav.Frame\<close>. It allocates an
  intermediate RGBA frame (released by \<open>defer srcFrame.Free()\<close>), copies the image in,
  allocates the output frame (deliberately not released: the caller owns it), builds a
  software-scale context (released by \<open>defer swsCtx.Free()\<close>) and scales once.
  The FFmpeg calls are modelled from the spec (section 4.1): each one either fails
  with an error chosen by an oracle record \<open>conv_env\<close>, or does its documented work;
  the guards FFmpeg itself checks (no pixel format, non-positive size, no buffer) are
  written out. The run records acquisitions and releases, so that ownership on every
  exit path is a theorem.
\<close>

datatype pixel_format = PixelFormatNone | PixelFormatRgba | PixelFormatYuv420P

text \<open>Go's \<open>image.Rectangle\<close> and \<open>image.RGBA\<close>.\<close>

record rectangle =
  min_x :: int
  min_y :: int
  max_x :: int
  max_y :: int

definition Dx :: "rectangle \<Rightarrow> int" where
  "Dx r = max_x r - min_x r"

definition Dy :: "rectangle \<Rightarrow> int" where
  "Dy r = max_y r - min_y r"

record image_rgba =
  img_pix :: "8 word list"
  img_stride :: int
  img_rect :: rectangle

text \<open>
  What a frame's buffer holds: nothing yet, freshly allocated bytes, the bytes of an
  image, or the result of a scale from one format to another of some source data.
\<close>

datatype frame_data =
    NoBuffer
  | Uninitialised
  | ImagePixels "8 word list"
  | Scaled pixel_format pixel_format frame_data

record av_frame =
  fr_width :: int
  fr_height :: int
  fr_pix_fmt :: pixel_format
  fr_data :: frame_data
  fr_pts :: int

text \<open>\<open>astiav.AllocFrame\<close>: \<open>av_frame_alloc\<close> with its defaults (no buffer, pts unset).\<close>

definition AllocFrame :: av_frame where
  "AllocFrame = \<lparr>fr_width = 0, fr_height = 0, fr_pix_fmt = PixelFormatNone,
                 fr_data = NoBuffer, fr_pts = AV_NOPTS_VALUE\<rparr>"

text \<open>The outcome the FFmpeg side gives each fallible call of one conversion.\<close>

record conv_env =
  src_buffer_err :: "averror option"
  writable_err :: "averror option"
  from_image_err :: "go_error option"
  dst_buffer_err :: "averror option"
  sws_create_err :: "go_error option"
  scale_err :: "averror option"

text \<open>\<open>frame.AllocBuffer(1)\<close>, i.e. \<open>av_frame_get_buffer\<close>.\<close>

definition AllocBuffer :: "averror option \<Rightarrow> av_frame \<Rightarrow> averror + av_frame" where
  "AllocBuffer oracle f =
     (if fr_pix_fmt f = PixelFormatNone \<or> fr_width f \<le> 0 \<or> fr_height f \<le> 0 then Inl ErrEinval
      else case oracle of Some e \<Rightarrow> Inl e | None \<Rightarrow> Inr (f\<lparr>fr_data := Uninitialised\<rparr>))"

text \<open>\<open>frame.MakeWritable()\<close>, i.e. \<open>av_frame_make_writable\<close>: a frame without a buffer is refused.\<close>

definition MakeWritable :: "averror option \<Rightarrow> av_frame \<Rightarrow> averror + av_frame" where
  "MakeWritable oracle f =
     (if fr_data f = NoBuffer then Inl ErrEinval
      else case oracle of Some e \<Rightarrow> Inl e | None \<Rightarrow> Inr f)"

text \<open>\<open>frame.Data().FromImage(img)\<close>: copies the pixels into an RGBA frame.\<close>

definition FromImage :: "go_error option \<Rightarrow> av_frame \<Rightarrow> image_rgba \<Rightarrow> go_error + av_frame" where
  "FromImage oracle f img =
     (if fr_pix_fmt f \<noteq> PixelFormatRgba then Inl (NewError ''astiav: pixel format does not match image'')
      else case oracle of Some e \<Rightarrow> Inl e | None \<Rightarrow> Inr (f\<lparr>fr_data := ImagePixels (img_pix img)\<rparr>))"

text \<open>The software-scale context (\<open>SwsContext\<close>) and its construction.\<close>

record sws_context =
  sws_src_w :: int
  sws_src_h :: int
  sws_src_fmt :: pixel_format
  sws_dst_w :: int
  sws_dst_h :: int
  sws_dst_fmt :: pixel_format
  sws_flags :: "32 word"

definition SoftwareScaleContextFlagBilinear :: "32 word" where
  "SoftwareScaleContextFlagBilinear = 2"

definition CreateSoftwareScaleContext ::
  "go_error option \<Rightarrow> int \<Rightarrow> int \<Rightarrow> pixel_format \<Rightarrow> int \<Rightarrow> int \<Rightarrow> pixel_format \<Rightarrow> 32 word
   \<Rightarrow> go_error + sws_context" where
  "CreateSoftwareScaleContext oracle sw sh sf dw dh df flags =
     (if sw \<le> 0 \<or> sh \<le> 0 \<or> dw \<le> 0 \<or> dh \<le> 0 then Inl (NewError ''astiav: empty new context'')
      else case oracle of Some e \<Rightarrow> Inl e
      | None \<Rightarrow> Inr \<lparr>sws_src_w = sw, sws_src_h = sh, sws_src_fmt = sf,
                    sws_dst_w = dw, sws_dst_h = dh, sws_dst_fmt = df, sws_flags = flags\<rparr>)"

text \<open>\<open>swsCtx.ScaleFrame(src, dst)\<close>: the destination's planes are computed from the source's.\<close>

definition ScaleFrame :: "averror option \<Rightarrow> sws_context \<Rightarrow> av_frame \<Rightarrow> av_frame \<Rightarrow> averror + av_frame" where
  "ScaleFrame oracle sws src dst =
     (case oracle of Some e \<Rightarrow> Inl e
      | None \<Rightarrow> Inr (dst\<lparr>fr_data := Scaled (sws_src_fmt sws) (sws_dst_fmt sws) (fr_data src)\<rparr>))"

text \<open>The three objects one conversion allocates.\<close>

datatype conv_res = SrcFrame | ColoredFrame | SwsContext

text \<open>
  \<open>ImageRGBAtoAVFrame\<close>: every \<open>return nil, err\<close> is an \<open>Inl\<close>; the trace is the
  acquisitions made so far followed by the deferred releases, newest first (Go runs
  deferred calls in last-in, first-out order when the function returns).
\<close>

definition ImageRGBAtoAVFrame ::
  "conv_env \<Rightarrow> image_rgba \<Rightarrow> (go_error + av_frame) \<times> conv_res res_event list" where
  "ImageRGBAtoAVFrame env img =
     (let src0 = AllocFrame\<lparr>fr_width := Dx (img_rect img), fr_height := Dy (img_rect img),
                           fr_pix_fmt := PixelFormatRgba\<rparr>;
          acq = [Acquire SrcFrame];
          defers = [Release SrcFrame]
      in case AllocBuffer (src_buffer_err env) src0 of
           Inl e \<Rightarrow> (Inl (AvError e), acq @ defers)
         | Inr src1 \<Rightarrow>
      (case MakeWritable (writable_err env) src1 of
           Inl e \<Rightarrow> (Inl (AvError e), acq @ defers)
         | Inr src2 \<Rightarrow>
      (case FromImage (from_image_err env) src2 img of
           Inl e \<Rightarrow> (Inl e, acq @ defers)
         | Inr src \<Rightarrow>
      (let dst0 = AllocFrame\<lparr>fr_width := fr_width src, fr_height := fr_height src,
                             fr_pix_fmt := PixelFormatYuv420P\<rparr>;
           acq = acq @ [Acquire ColoredFrame]
       in case AllocBuffer (dst_buffer_err env) dst0 of
           Inl e \<Rightarrow> (Inl (AvError e), acq @ defers)
         | Inr dst1 \<Rightarrow>
      (case CreateSoftwareScaleContext (sws_create_err env)
              (fr_width src) (fr_height src) PixelFormatRgba
              (fr_width dst1) (fr_height dst1) PixelFormatYuv420P
              SoftwareScaleContextFlagBilinear of
           Inl e \<Rightarrow> (Inl e, acq @ defers)
         | Inr sws \<Rightarrow>
      (let acq = acq @ [Acquire SwsContext];
           defers = Release SwsContext # defers
       in case ScaleFrame (scale_err env) sws src dst1 of
           Inl e \<Rightarrow> (Inl (AvError e), acq @ defers)
         | Inr dst \<Rightarrow> (Inr dst, acq @ defers)))))))"

lemma ImageRGBAtoAVFrame_Inr_trace:
  "ImageRGBAtoAVFrame env img = (Inr f, tr) \<Longrightarrow>
     tr = [Acquire SrcFrame, Acquire ColoredFrame, Acquire SwsContext, Release SwsContext, Release SrcFrame]"
  by (auto simp: ImageRGBAtoAVFrame_def Let_def split: sum.splits)

lemma ImageRGBAtoAVFrame_trace_cases:
  "snd (ImageRGBAtoAVFrame env img) \<in>
     {[Acquire SrcFrame, Release SrcFrame],
      [Acquire SrcFrame, Acquire ColoredFrame, Release SrcFrame],
      [Acquire SrcFrame, Acquire ColoredFrame, Acquire SwsContext, Release SwsContext, Release SrcFrame]}"
  by (auto simp: ImageRGBAtoAVFrame_def Let_def split: sum.splits)

section \<open>What a conversion promises\<close>

text \<open>
  The contract of section 4.1: a frame of the image's size, in planar YUV 4:2:0, whose
  planes are the scale of the image's pixels, with no timestamp yet.
\<close>

definition converted_frame :: "image_rgba \<Rightarrow> av_frame" where
  "converted_frame img =
     AllocFrame\<lparr>fr_width := Dx (img_rect img), fr_height := Dy (img_rect img),
       fr_pix_fmt := PixelFormatYuv420P,
       fr_data := Scaled PixelFormatRgba PixelFormatYuv420P (ImagePixels (img_pix img))\<rparr>"

definition conv_succeeds :: "conv_env \<Rightarrow> bool" where
  "conv_succeeds env \<longleftrightarrow> src_buffer_err env = None \<and> writable_err env = None \<and>
     from_image_err env = None \<and> dst_buffer_err env = None \<and> sws_create_err env = None \<and>
     scale_err env = None"

lemmas conv_call_defs = AllocFrame_def AllocBuffer_def MakeWritable_def FromImage_def
  CreateSoftwareScaleContext_def ScaleFrame_def

text \<open>
  C20: the conversion returns a frame exactly when the image has a positive size and no
  FFmpeg call fails, and the frame it returns is the one the contract describes.
\<close>

theorem ImageRGBAtoAVFrame_success_iff:
  "fst (ImageRGBAtoAVFrame env img) = Inr f \<longleftrightarrow>
     0 < Dx (img_rect img) \<and> 0 < Dy (img_rect img) \<and> conv_succeeds env \<and>
     f = converted_frame img"
  by (auto simp: ImageRGBAtoAVFrame_def Let_def conv_succeeds_def converted_frame_def
      conv_call_defs split: sum.splits option.splits if_splits)

text \<open>
  C22: the only object a conversion can leave allocated is the colored frame, and it is
  left allocated whenever it was allocated, on the error returns after line 59 of
  part_000 as well as on success: the error paths leak it.
\<close>

theorem ImageRGBAtoAVFrame_leaked:
  "leaked (snd (ImageRGBAtoAVFrame env img)) =
     acquired (snd (ImageRGBAtoAVFrame env img)) \<inter> {ColoredFrame}"
  by (auto simp: ImageRGBAtoAVFrame_def Let_def leaked_def split: sum.splits)

text \<open>
  C23: a failing scale (line 98 of part_000) returns the error and leaves the colored
  frame allocated, with nobody holding a reference to it.
\<close>

theorem ImageRGBAtoAVFrame_scale_error_leaks:
  assumes "0 < Dx (img_rect img)" "0 < Dy (img_rect img)"
    and "src_buffer_err env = None" "writable_err env = None" "from_image_err env = None"
    and "dst_buffer_err env = None" "sws_create_err env = None" "scale_err env = Some e"
  shows "fst (ImageRGBAtoAVFrame env img) = Inl (AvError e) \<and>
         leaked (snd (ImageRGBAtoAVFrame env img)) = {ColoredFrame}"
  using assms
  by (auto simp: ImageRGBAtoAVFrame_def Let_def leaked_def conv_call_defs)

lemma ImageRGBAtoAVFrame_scale_error_leaks_witness:
  "fst (ImageRGBAtoAVFrame
          \<lparr>src_buffer_err = None, writable_err = None, from_image_err = None,
           dst_buffer_err = None, sws_create_err = None, scale_err = Some ErrEnomem\<rparr>
          \<lparr>img_pix = replicate 16 0, img_stride = 8,
           img_rect = \<lparr>min_x = 0, min_y = 0, max_x = 2, max_y = 2\<rparr>\<rparr>)
     = Inl (AvError ErrEnomem) \<and>
   leaked (snd (ImageRGBAtoAVFrame
          \<lparr>src_buffer_err = None, writable_err = None, from_image_err = None,
           dst_buffer_err = None, sws_create_err = None, scale_err = Some ErrEnomem\<rparr>
          \<lparr>img_pix = replicate 16 0, img_stride = 8,
           img_rect = \<lparr>min_x = 0, min_y = 0, max_x = 2, max_y = 2\<rparr>\<rparr>)) = {ColoredFrame}"
  by (rule ImageRGBAtoAVFrame_scale_error_leaks) (simp_all add: Dx_def Dy_def)

end
