(* ===== verification/Sampler.thy ===== *)
theory Sampler
  imports FrameConverter
begin

text \<open>
  The screen sampler \<open>StartScreenCap(ctx, fps, imgChan)\<close> (screencap.go, lines 13-41),
  the goroutine started at line 137. It computes the tick interval
  \<open>time.Second / time.Duration(fps)\<close> (a Go division: it panics for \<open>fps = 0\<close>, and
  \<open>time.NewTicker\<close> panics on a non-positive interval), reads the display bounds once,
  and then loops on a select: \<open>ctx.Done()\<close> returns nil, a tick captures a screenshot
  (an error returns it) and sends it on the unbuffered channel, blocking until the
  consumer receives it. Between the \<open>go\<close> statement that creates it and its first
  step it is \<open>SStarting\<close>. The sampler's state is its program point (\<open>sampler_pc\<close>) with
  the locals it keeps; each select branch is one function on that state. The
  screenshot library is an oracle: \<open>capture res k\<close> is the result of the k-th capture.
\<close>

definition time_Second :: int where
  "time_Second = 1000000000"

text \<open>Lines 15 and 21: the interval, and the panic of \<open>NewTicker\<close> on a non-positive one.\<close>

definition wait_time :: "int \<Rightarrow> go_panic + int" where
  "wait_time fps =
     (case go_div time_Second fps of
        Inl p \<Rightarrow> Inl p
      | Inr d \<Rightarrow> if d \<le> 0 then Inl NonPositiveTickerInterval else Inr d)"

datatype sampler_pc =
    SNotStarted
  | SStarting int
  | SPanicked go_panic
  | SLoop
  | SSend image_rgba
  | SReturned "go_error option"

record sampler =
  sm_pc :: sampler_pc
  sm_interval :: int
  sm_bounds :: rectangle
  sm_captures :: nat
  sm_ticker_running :: bool

type_synonym capture_fn = "rectangle \<Rightarrow> nat \<Rightarrow> go_error + image_rgba"

definition sampler_idle :: sampler where
  "sampler_idle = \<lparr>sm_pc = SNotStarted, sm_interval = 0,
     sm_bounds = \<lparr>min_x = 0, min_y = 0, max_x = 0, max_y = 0\<rparr>, sm_captures = 0,
     sm_ticker_running = False\<rparr>"

text \<open>Lines 13-22: from the call to the top of the loop, with \<open>res\<close> the display bounds.\<close>

definition StartScreenCap :: "rectangle \<Rightarrow> int \<Rightarrow> sampler" where
  "StartScreenCap res fps =
     (case wait_time fps of
        Inl p \<Rightarrow> sampler_idle\<lparr>sm_pc := SPanicked p\<rparr>
      | Inr d \<Rightarrow> sampler_idle\<lparr>sm_pc := SLoop, sm_interval := d, sm_bounds := res,
                               sm_ticker_running := True\<rparr>)"

text \<open>
  Line 137: \<open>go func() { StartScreenCap(ctx, fps, imgChan) }()\<close> creates the
  goroutine; it has not run any of lines 13-22 yet. \<open>sampler_start\<close> is its first
  step, lines 13-22 (the display bounds \<open>res\<close> are an oracle value, kept from the
  start).
\<close>

definition sampler_go :: "rectangle \<Rightarrow> int \<Rightarrow> sampler" where
  "sampler_go res fps = sampler_idle\<lparr>sm_pc := SStarting fps, sm_bounds := res\<rparr>"

definition sampler_start :: "sampler \<Rightarrow> sampler" where
  "sampler_start sm = (case sm_pc sm of SStarting fps \<Rightarrow> StartScreenCap (sm_bounds sm) fps | _ \<Rightarrow> sm)"

text \<open>Lines 27-29: the \<open>ctx.Done()\<close> branch; the deferred \<open>ticker.Stop()\<close> runs.\<close>

definition sampler_done :: "sampler \<Rightarrow> sampler" where
  "sampler_done sm = sm\<lparr>sm_pc := SReturned None, sm_ticker_running := False\<rparr>"

text \<open>Lines 30-38: the tick branch up to the channel send.\<close>

definition sampler_tick :: "capture_fn \<Rightarrow> sampler \<Rightarrow> sampler" where
  "sampler_tick capture sm =
     (let sm' = sm\<lparr>sm_captures := Suc (sm_captures sm)\<rparr>
      in case capture (sm_bounds sm) (sm_captures sm) of
           Inl e \<Rightarrow> sm'\<lparr>sm_pc := SReturned (Some e), sm_ticker_running := False\<rparr>
         | Inr img \<Rightarrow> sm'\<lparr>sm_pc := SSend img\<rparr>)"

text \<open>Line 38 completes when the consumer receives: back to the top of the loop.\<close>

definition sampler_sent :: "sampler \<Rightarrow> sampler" where
  "sampler_sent sm = sm\<lparr>sm_pc := SLoop\<rparr>"

text \<open>The images the first \<open>n\<close> captures produced, in order.\<close>

definition captured :: "capture_fn \<Rightarrow> rectangle \<Rightarrow> nat \<Rightarrow> image_rgba list" where
  "captured capture res n = concat (map (\<lambda>k. case capture res k of Inl _ \<Rightarrow> [] | Inr img \<Rightarrow> [img]) [0..<n])"

definition pending :: "sampler \<Rightarrow> image_rgba list" where
  "pending sm = (case sm_pc sm of SSend img \<Rightarrow> [img] | _ \<Rightarrow> [])"

lemma captured_Suc:
  "captured capture res (Suc n) =
     captured capture res n @ (case capture res n of Inl _ \<Rightarrow> [] | Inr img \<Rightarrow> [img])"
  by (simp add: captured_def)

section \<open>The interval\<close>

text \<open>
  C19: the tick interval is \<open>10^9 div fps\<close> nanoseconds for every \<open>fps\<close> from 1 to
  \<open>10^9\<close>; \<open>fps = 0\<close> panics on the division and a negative \<open>fps\<close> or one above
  \<open>10^9\<close> panics in \<open>NewTicker\<close>, so the sampler never runs with a non-positive interval.
\<close>

theorem wait_time_cases:
  "wait_time fps =
     (if fps = 0 then Inl DivideByZero
      else if 0 < fps \<and> fps \<le> time_Second then Inr (time_Second div fps)
      else Inl NonPositiveTickerInterval)"
proof (cases "fps < 0")
  case True
  then have "0 \<le> time_Second div (- fps)"
    by (simp add: time_Second_def pos_imp_zdiv_nonneg_iff)
  with True have "time_Second sdiv fps \<le> 0"
    by (simp add: signed_divide_int_def time_Second_def sgn_if)
  with True show ?thesis
    by (simp add: wait_time_def go_div_def)
next
  case False
  then show ?thesis
  proof (cases "fps = 0")
    case False
    with \<open>\<not> fps < 0\<close> have "0 < fps" by simp
    then have "go_div time_Second fps = Inr (time_Second div fps)"
      by (simp add: time_Second_def)
    moreover have "0 < time_Second div fps \<longleftrightarrow> fps \<le> time_Second"
      using \<open>0 < fps\<close> by (simp add: time_Second_def pos_imp_zdiv_pos_iff)
    ultimately show ?thesis
      using \<open>0 < fps\<close> by (auto simp: wait_time_def)
  qed (simp add: wait_time_def go_div_def)
qed

end
