(* ===== verification/Encoder.thy ===== *)
theory Encoder
  imports FrameConverter
begin

unbundle bit_operations_syntax

text \<open>
  The encoder session. \<open>NewH264EncoderCodec\<close> (src/unnamed/part_000, lines 106-142)
  looks the H.264 encoder up, allocates its codec context and sets its parameters; it
  is modelled line by line. The codec context's runtime, \<open>avcodec_open2\<close>,
  \<open>avcodec_send_frame\<close> and \<open>avcodec_receive_packet\<close> behind \<open>encCtx.Open\<close>,
  \<open>encCtx.SendFrame\<close> and \<open>encCtx.ReceivePacket\<close>, is FFmpeg's and is modelled from the
  spec (section 4.2): a FIFO of accepted frames that releases a packet once more than
  \<open>enc_delay\<close> frames are buffered (the encoder's lookahead) or once end of stream
  has been signalled; \<open>ErrEagain\<close> when it needs more input, \<open>ErrEof\<close> when
  drained; frames whose timestamp does not increase are refused.
\<close>

section \<open>Codec lookup and configuration\<close>

datatype codec_id = CodecIDH264 | CodecIDOther int

record codec =
  codec_name :: string
  codec_cid :: codec_id
  codec_is_encoder :: bool

text \<open>\<open>astiav.FindEncoder\<close>: the first registered encoder for the identifier, or nil.\<close>

definition FindEncoder :: "codec list \<Rightarrow> codec_id \<Rightarrow> codec option" where
  "FindEncoder registry cid = find (\<lambda>c. codec_is_encoder c \<and> codec_cid c = cid) registry"

record codec_context =
  cc_codec :: codec
  cc_width :: int
  cc_height :: int
  cc_framerate :: rational
  cc_time_base :: rational
  cc_pix_fmt :: pixel_format
  cc_bit_rate :: int
  cc_flags :: "32 word"

text \<open>
  \<open>astiav.AllocCodecContext\<close>: \<open>avcodec_alloc_context3\<close> with FFmpeg's defaults
  (no size, rates 0/1, no pixel format, the default bit rate of 200 kb/s, no flags).
\<close>

definition AllocCodecContext :: "codec \<Rightarrow> codec_context" where
  "AllocCodecContext c =
     \<lparr>cc_codec = c, cc_width = 0, cc_height = 0, cc_framerate = NewRational 0 1,
      cc_time_base = NewRational 0 1, cc_pix_fmt = PixelFormatNone, cc_bit_rate = 200000,
      cc_flags = 0\<rparr>"

text \<open>\<open>astiav.CodecContextFlagGlobalHeader\<close> is \<open>AV_CODEC_FLAG_GLOBAL_HEADER\<close>, bit 22.\<close>

definition CodecContextFlagGlobalHeader :: "32 word" where
  "CodecContextFlagGlobalHeader = push_bit 22 1"

text \<open>\<open>CodecContextFlags.Add\<close>: a bitwise or.\<close>

definition flags_add :: "32 word \<Rightarrow> 32 word \<Rightarrow> 32 word" where
  "flags_add fs f = fs OR f"

text \<open>What the platform provides: its codec registry and whether allocation succeeds.\<close>

record codec_env =
  codec_registry :: "codec list"
  ctx_alloc_ok :: bool

definition NewH264EncoderCodec ::
  "codec_env \<Rightarrow> int \<Rightarrow> int \<Rightarrow> int \<Rightarrow> int \<Rightarrow> go_error + (codec \<times> codec_context)" where
  "NewH264EncoderCodec env width height fps bitrate =
     (case FindEncoder (codec_registry env) CodecIDH264 of
        None \<Rightarrow> Inl (NewError ''error finding h264 encoder'')
      | Some c \<Rightarrow>
          if \<not> ctx_alloc_ok env then Inl (NewError ''error allocating codec context'')
          else let ctx = AllocCodecContext c;
                   ctx = ctx\<lparr>cc_width := width\<rparr>;
                   ctx = ctx\<lparr>cc_height := height\<rparr>;
                   ctx = ctx\<lparr>cc_framerate := NewRational fps 1\<rparr>;
                   ctx = ctx\<lparr>cc_time_base := NewRational 1 (90 * 1000)\<rparr>;
                   ctx = ctx\<lparr>cc_pix_fmt := PixelFormatYuv420P\<rparr>;
                   ctx = ctx\<lparr>cc_bit_rate := bitrate\<rparr>;
                   ctx = ctx\<lparr>cc_flags := flags_add (cc_flags ctx) CodecContextFlagGlobalHeader\<rparr>
               in Inr (c, ctx))"

section \<open>The encoder's send/receive state machine\<close>

record encoder =
  enc_opened :: bool
  enc_delay :: nat
  enc_queue :: "int list"
  enc_draining :: bool
  enc_last_pts :: "int option"

definition encoder_init :: encoder where
  "encoder_init = \<lparr>enc_opened = False, enc_delay = 0, enc_queue = [], enc_draining = False,
                   enc_last_pts = None\<rparr>"

text \<open>
  \<open>encCtx.Open(enc, nil)\<close>: refused when already open or when the time base is not set;
  otherwise the platform's encoder opens (with its lookahead \<open>delay\<close>) or fails.
\<close>

definition CodecContextOpen ::
  "averror option \<Rightarrow> nat \<Rightarrow> codec_context \<Rightarrow> encoder \<Rightarrow> averror + encoder" where
  "CodecContextOpen oracle delay ctx enc =
     (if enc_opened enc \<or> \<not> valid_tb (cc_time_base ctx) then Inl ErrEinval
      else case oracle of Some e \<Rightarrow> Inl e
      | None \<Rightarrow> Inr (enc\<lparr>enc_opened := True, enc_delay := delay\<rparr>))"

text \<open>\<open>encCtx.SendFrame\<close>: a frame, or \<open>None\<close> for the end-of-stream signal.\<close>

fun SendFrame :: "av_frame option \<Rightarrow> encoder \<Rightarrow> averror + encoder" where
  "SendFrame None enc =
     (if \<not> enc_opened enc then Inl ErrEinval
      else if enc_draining enc then Inl ErrEof
      else Inr (enc\<lparr>enc_draining := True\<rparr>))"
| "SendFrame (Some f) enc =
     (if \<not> enc_opened enc then Inl ErrEinval
      else if enc_draining enc then Inl ErrEof
      else if enc_delay enc < length (enc_queue enc) then Inl ErrEagain
      else if (case enc_last_pts enc of None \<Rightarrow> False | Some p \<Rightarrow> fr_pts f \<le> p) then Inl ErrEinval
      else Inr (enc\<lparr>enc_queue := enc_queue enc @ [fr_pts f], enc_last_pts := Some (fr_pts f)\<rparr>))"

text \<open>The packet the encoder emits for a frame: it keeps the frame's timestamp.\<close>

definition packet_of :: "int \<Rightarrow> packet" where
  "packet_of t = \<lparr>pkt_pts = t, pkt_dts = t, pkt_duration = 0\<rparr>"

definition ReceivePacket :: "encoder \<Rightarrow> (averror + packet) \<times> encoder" where
  "ReceivePacket enc =
     (if \<not> enc_opened enc then (Inl ErrEinval, enc)
      else case enc_queue enc of
        [] \<Rightarrow> (Inl (if enc_draining enc then ErrEof else ErrEagain), enc)
      | t # q \<Rightarrow>
          if enc_delay enc < length (enc_queue enc) \<or> enc_draining enc
          then (Inr (packet_of t), enc\<lparr>enc_queue := q\<rparr>)
          else (Inl ErrEagain, enc))"

lemma ReceivePacket_Inr_queue:
  "ReceivePacket enc = (Inr p, enc') \<Longrightarrow>
     enc_queue enc = pkt_pts p # enc_queue enc' \<and> p = packet_of (pkt_pts p) \<and>
     enc' = enc\<lparr>enc_queue := tl (enc_queue enc)\<rparr>"
  by (auto simp: ReceivePacket_def packet_of_def split: if_splits list.splits)

lemma ReceivePacket_Inl_same:
  "ReceivePacket enc = (Inl e, enc') \<Longrightarrow> enc' = enc"
  by (auto simp: ReceivePacket_def split: if_splits list.splits)

lemma ReceivePacket_Inr_shorter:
  "(Inr p, enc') = ReceivePacket enc \<Longrightarrow> length (enc_queue enc') < length (enc_queue enc)"
  using ReceivePacket_Inr_queue [OF sym] by fastforce


text \<open>
  The drain the spec describes (section 4.2): receive until the encoder answers
  anything but a packet. It stops because every packet shortens the queue.
\<close>

function drain_encoder :: "encoder \<Rightarrow> packet list \<times> averror \<times> encoder" where
  "drain_encoder enc =
     (case ReceivePacket enc of
        (Inr p, enc') \<Rightarrow> (let (ps, e, enc'') = drain_encoder enc' in (p # ps, e, enc''))
      | (Inl e, enc') \<Rightarrow> ([], e, enc'))"
  by pat_completeness auto
termination
  by (relation "measure (\<lambda>enc. length (enc_queue enc))") (auto dest: ReceivePacket_Inr_shorter)

declare drain_encoder.simps [simp del]

lemma drain_encoder_draining:
  "enc_opened enc \<Longrightarrow> enc_draining enc \<Longrightarrow>
     drain_encoder enc = (map packet_of (enc_queue enc), ErrEof, enc\<lparr>enc_queue := []\<rparr>)"
proof (induction "enc_queue enc" arbitrary: enc)
  case Nil
  then show ?case by (simp add: drain_encoder.simps ReceivePacket_def)
next
  case (Cons t q)
  let ?enc' = "enc\<lparr>enc_queue := q\<rparr>"
  have r: "ReceivePacket enc = (Inr (packet_of t), ?enc')"
    using Cons.prems Cons.hyps(2) [symmetric] by (simp add: ReceivePacket_def)
  have "drain_encoder ?enc' = (map packet_of q, ErrEof, ?enc'\<lparr>enc_queue := []\<rparr>)"
    using Cons.prems Cons.hyps(1) [of ?enc'] by simp
  then show ?case
    using r Cons.hyps(2) [symmetric] by (simp add: drain_encoder.simps [of enc])
qed

lemma drain_encoder_running:
  "enc_opened enc \<Longrightarrow> \<not> enc_draining enc \<Longrightarrow>
     drain_encoder enc = (map packet_of (take (length (enc_queue enc) - enc_delay enc) (enc_queue enc)),
        ErrEagain, enc\<lparr>enc_queue := drop (length (enc_queue enc) - enc_delay enc) (enc_queue enc)\<rparr>)"
proof (induction "enc_queue enc" arbitrary: enc)
  case Nil
  then show ?case by (simp add: drain_encoder.simps ReceivePacket_def)
next
  case (Cons t q)
  show ?case
  proof (cases "enc_delay enc < length (enc_queue enc)")
    case True
    let ?enc' = "enc\<lparr>enc_queue := q\<rparr>"
    have r: "ReceivePacket enc = (Inr (packet_of t), ?enc')"
      using Cons.prems Cons.hyps(2) [symmetric] True by (simp add: ReceivePacket_def)
    have "drain_encoder ?enc' = (map packet_of (take (length q - enc_delay enc) q), ErrEagain,
            ?enc'\<lparr>enc_queue := drop (length q - enc_delay enc) q\<rparr>)"
      using Cons.prems by (subst Cons.hyps(1)) simp_all
    moreover have "length (enc_queue enc) - enc_delay enc = Suc (length q - enc_delay enc)"
      using True Cons.hyps(2) [symmetric] by simp
    ultimately show ?thesis
      using r Cons.hyps(2) [symmetric] by (simp add: drain_encoder.simps [of enc])
  next
    case False
    then have "ReceivePacket enc = (Inl ErrEagain, enc)"
      using Cons.prems Cons.hyps(2) [symmetric] by (simp add: ReceivePacket_def)
    with False show ?thesis by (simp add: drain_encoder.simps [of enc])
  qed
qed

section \<open>Properties of the encoder session\<close>

text \<open>
  C24: a successful \<open>NewH264EncoderCodec\<close> returns an H.264 encoder and a context
  configured as the code says: the requested size and frame rate \<open>fps/1\<close>, the
  90 kHz time base (a valid one, so that \<open>Open\<close> accepts it), planar YUV 4:2:0, the
  given bit rate, and the global-header flag (bit 22) set.
\<close>

theorem NewH264EncoderCodec_config:
  assumes "NewH264EncoderCodec env w h fps br = Inr (c, ctx)"
  shows "codec_cid c = CodecIDH264 \<and> codec_is_encoder c \<and>
         cc_width ctx = w \<and> cc_height ctx = h \<and> cc_framerate ctx = NewRational fps 1 \<and>
         cc_time_base ctx = NewRational 1 90000 \<and> valid_tb (cc_time_base ctx) \<and>
         cc_pix_fmt ctx = PixelFormatYuv420P \<and> cc_bit_rate ctx = br \<and> bit (cc_flags ctx) 22"
proof -
  from assms have found: "FindEncoder (codec_registry env) CodecIDH264 = Some c"
    and ctx: "ctx = (AllocCodecContext c)\<lparr>cc_width := w, cc_height := h,
      cc_framerate := NewRational fps 1, cc_time_base := NewRational 1 90000,
      cc_pix_fmt := PixelFormatYuv420P, cc_bit_rate := br,
      cc_flags := flags_add 0 CodecContextFlagGlobalHeader\<rparr>"
    by (auto simp: NewH264EncoderCodec_def AllocCodecContext_def split: option.splits if_splits)
  from found have "codec_cid c = CodecIDH264 \<and> codec_is_encoder c"
    by (auto simp: FindEncoder_def dest: find_Some_iff [THEN iffD1])
  moreover have "bit (flags_add 0 CodecContextFlagGlobalHeader) 22"
    by (simp add: flags_add_def CodecContextFlagGlobalHeader_def bit_push_bit_iff)
  ultimately show ?thesis
    using ctx by (simp add: AllocCodecContext_def NewRational_def valid_tb_def)
qed

definition h264_registry :: "codec list" where
  "h264_registry = [\<lparr>codec_name = ''h264'', codec_cid = CodecIDH264, codec_is_encoder = False\<rparr>,
                    \<lparr>codec_name = ''libx264'', codec_cid = CodecIDH264, codec_is_encoder = True\<rparr>]"

lemma NewH264EncoderCodec_config_witness:
  "NewH264EncoderCodec \<lparr>codec_registry = h264_registry, ctx_alloc_ok = True\<rparr> 1920 1080 30 0 =
     Inr (\<lparr>codec_name = ''libx264'', codec_cid = CodecIDH264, codec_is_encoder = True\<rparr>,
          \<lparr>cc_codec = \<lparr>codec_name = ''libx264'', codec_cid = CodecIDH264, codec_is_encoder = True\<rparr>,
           cc_width = 1920, cc_height = 1080, cc_framerate = NewRational 30 1,
           cc_time_base = NewRational 1 90000, cc_pix_fmt = PixelFormatYuv420P, cc_bit_rate = 0,
           cc_flags = CodecContextFlagGlobalHeader\<rparr>) \<and>
   bit (cc_flags \<lparr>cc_codec = \<lparr>codec_name = ''libx264'', codec_cid = CodecIDH264, codec_is_encoder = True\<rparr>,
           cc_width = 1920, cc_height = 1080, cc_framerate = NewRational 30 1,
           cc_time_base = NewRational 1 90000, cc_pix_fmt = PixelFormatYuv420P, cc_bit_rate = 0,
           cc_flags = CodecContextFlagGlobalHeader\<rparr>) 22"
proof -
  have run: "NewH264EncoderCodec \<lparr>codec_registry = h264_registry, ctx_alloc_ok = True\<rparr> 1920 1080 30 0 =
     Inr (\<lparr>codec_name = ''libx264'', codec_cid = CodecIDH264, codec_is_encoder = True\<rparr>,
          \<lparr>cc_codec = \<lparr>codec_name = ''libx264'', codec_cid = CodecIDH264, codec_is_encoder = True\<rparr>,
           cc_width = 1920, cc_height = 1080, cc_framerate = NewRational 30 1,
           cc_time_base = NewRational 1 90000, cc_pix_fmt = PixelFormatYuv420P, cc_bit_rate = 0,
           cc_flags = CodecContextFlagGlobalHeader\<rparr>)"
    by (simp add: NewH264EncoderCodec_def FindEncoder_def h264_registry_def AllocCodecContext_def
        flags_add_def)
  show ?thesis using run NewH264EncoderCodec_config [OF run] by simp
qed

text \<open>
  C25: on a platform whose registry has no H.264 encoder (a decoder alone does not
  count), the constructor fails with the error of line 113 of part_000.
\<close>

theorem NewH264EncoderCodec_not_found:
  "FindEncoder (codec_registry env) CodecIDH264 = None \<Longrightarrow>
     NewH264EncoderCodec env w h fps br = Inl (NewError ''error finding h264 encoder'')"
  by (simp add: NewH264EncoderCodec_def)

lemma NewH264EncoderCodec_not_found_witness:
  "FindEncoder [\<lparr>codec_name = ''h264'', codec_cid = CodecIDH264, codec_is_encoder = False\<rparr>] CodecIDH264 = None \<and>
   NewH264EncoderCodec \<lparr>codec_registry = [\<lparr>codec_name = ''h264'', codec_cid = CodecIDH264,
       codec_is_encoder = False\<rparr>], ctx_alloc_ok = True\<rparr> 1920 1080 30 0
     = Inl (NewError ''error finding h264 encoder'')"
proof -
  have h: "FindEncoder (codec_registry \<lparr>codec_registry = [\<lparr>codec_name = ''h264'', codec_cid = CodecIDH264,
       codec_is_encoder = False\<rparr>], ctx_alloc_ok = True\<rparr>) CodecIDH264 = None"
    by (simp add: FindEncoder_def)
  show ?thesis using h NewH264EncoderCodec_not_found [OF h] by simp
qed

text \<open>
  Flush completeness (spec, section 8): after the end-of-stream signal, the drain
  returns every buffered frame's packet, in submission order, and then \<open>ErrEof\<close>;
  it needs one receive per buffered frame and one more.
\<close>

theorem flush_drains_all:
  assumes "enc_opened enc" "\<not> enc_draining enc"
  shows "\<exists>enc'. SendFrame None enc = Inr enc' \<and>
           drain_encoder enc' = (map packet_of (enc_queue enc), ErrEof, enc'\<lparr>enc_queue := []\<rparr>)"
proof -
  let ?enc' = "enc\<lparr>enc_draining := True\<rparr>"
  have "SendFrame None enc = Inr ?enc'" using assms by simp
  moreover have "drain_encoder ?enc' = (map packet_of (enc_queue enc), ErrEof, ?enc'\<lparr>enc_queue := []\<rparr>)"
    using assms drain_encoder_draining [of ?enc'] by simp
  ultimately show ?thesis by blast
qed

lemma flush_drains_all_witness:
  "enc_opened (encoder_init\<lparr>enc_opened := True, enc_delay := 2, enc_queue := [3000, 6000]\<rparr>) \<and>
   \<not> enc_draining (encoder_init\<lparr>enc_opened := True, enc_delay := 2, enc_queue := [3000, 6000]\<rparr>) \<and>
   (\<exists>enc'. SendFrame None (encoder_init\<lparr>enc_opened := True, enc_delay := 2, enc_queue := [3000, 6000]\<rparr>) = Inr enc' \<and>
      drain_encoder enc' = ([packet_of 3000, packet_of 6000], ErrEof, enc'\<lparr>enc_queue := []\<rparr>))"
proof -
  have h: "enc_opened (encoder_init\<lparr>enc_opened := True, enc_delay := 2, enc_queue := [3000, 6000]\<rparr>)"
    "\<not> enc_draining (encoder_init\<lparr>enc_opened := True, enc_delay := 2, enc_queue := [3000, 6000]\<rparr>)"
    by (simp_all add: encoder_init_def)
  show ?thesis using h flush_drains_all [OF h] by simp
qed

text \<open>
  Without the end-of-stream signal the drain stops at \<open>ErrEagain\<close> and leaves
  the encoder holding its lookahead: \<open>min (queued frames) delay\<close> frames stay inside.
\<close>

theorem drain_keeps_lookahead:
  assumes "enc_opened enc" "\<not> enc_draining enc"
  shows "fst (snd (drain_encoder enc)) = ErrEagain \<and>
         length (enc_queue (snd (snd (drain_encoder enc)))) = min (length (enc_queue enc)) (enc_delay enc) \<and>
         map pkt_pts (fst (drain_encoder enc)) @ enc_queue (snd (snd (drain_encoder enc))) = enc_queue enc"
  using drain_encoder_running [OF assms]
  by (simp add: comp_def packet_of_def)

lemma drain_keeps_lookahead_witness:
  "enc_opened (encoder_init\<lparr>enc_opened := True, enc_delay := 1, enc_queue := [0, 3000, 6000]\<rparr>) \<and>
   \<not> enc_draining (encoder_init\<lparr>enc_opened := True, enc_delay := 1, enc_queue := [0, 3000, 6000]\<rparr>) \<and>
   fst (snd (drain_encoder (encoder_init\<lparr>enc_opened := True, enc_delay := 1, enc_queue := [0, 3000, 6000]\<rparr>))) = ErrEagain \<and>
   length (enc_queue (snd (snd (drain_encoder (encoder_init\<lparr>enc_opened := True, enc_delay := 1,
      enc_queue := [0, 3000, 6000]\<rparr>))))) = 1"
proof -
  have h: "enc_opened (encoder_init\<lparr>enc_opened := True, enc_delay := 1, enc_queue := [0, 3000, 6000]\<rparr>)"
    "\<not> enc_draining (encoder_init\<lparr>enc_opened := True, enc_delay := 1, enc_queue := [0, 3000, 6000]\<rparr>)"
    by (simp_all add: encoder_init_def)
  show ?thesis using h drain_keeps_lookahead [OF h] by (simp add: encoder_init_def)
qed

lemma ReceivePacket_running:
  assumes "enc_opened enc" "\<not> enc_draining enc"
  shows "(ReceivePacket enc = (Inl e, enc') \<longleftrightarrow>
            e = ErrEagain \<and> enc' = enc \<and> length (enc_queue enc) \<le> enc_delay enc) \<and>
         (ReceivePacket enc = (Inr p, enc') \<longrightarrow> enc_delay enc < length (enc_queue enc))"
  using assms by (auto simp: ReceivePacket_def split: list.splits)

end
