(* ===== verification/Muxer.thy ===== *)
theory Muxer
  imports Encoder
begin

text \<open>
  The output container (spec, section 4.4). StartScreenRecording
  (src/examples/screenrecorder/screencap.go, lines 63-128 and 198-201) drives an
  \<open>astiav.FormatContext\<close> through \<open>AllocOutputFormatContext\<close>, \<open>NewStream\<close>,
  \<open>CodecParameters().FromCodecContext\<close>, \<open>SetTimeBase\<close>, \<open>OpenIOContext\<close>,
  \<open>SetPb\<close>, \<open>WriteHeader\<close>, \<open>WriteFrame\<close> and \<open>WriteTrailer\<close>. These are FFmpeg's
  (libavformat) and are modelled from the spec: the container's life cycle
  Unopened, HeaderWritten (packets are appended), TrailerWritten; the header needs an I/O
  context; a packet is accepted only after the header and with a decoding timestamp
  greater than the previous one (libavformat's check for formats without
  \<open>AVFMT_TS_NONSTRICT\<close>, MP4 among them). A call out of this order does not crash the
  model: it is refused and recorded in \<open>oc_misuse\<close>, so that "the code never misuses
  the container" is a theorem. Which calls fail, and the time base the muxer settles
  on when it writes the header, come from the oracle record \<open>mux_env\<close>.
\<close>

datatype mux_phase = Unopened | HeaderWritten | TrailerWritten

record output_ctx =
  oc_filename :: string
  oc_bit_rate :: int
  oc_has_stream :: bool
  oc_stream_tb :: rational
  oc_pb :: bool
  oc_phase :: mux_phase
  oc_packets :: "packet list"
  oc_last_dts :: "int option"
  oc_misuse :: bool

record mux_env =
  alloc_output_err :: "go_error option"
  new_stream_ok :: bool
  params_err :: "averror option"
  open_io_err :: "averror option"
  header_err :: "averror option"
  header_tb :: "rational \<Rightarrow> rational"
  write_err :: "nat \<Rightarrow> averror option"
  trailer_err :: "averror option"

text \<open>\<open>astiav.AllocOutputFormatContext(nil, "", filename)\<close>: a fresh context, bit rate 0.\<close>

definition AllocOutputFormatContext :: "mux_env \<Rightarrow> string \<Rightarrow> go_error + output_ctx" where
  "AllocOutputFormatContext env filename =
     (case alloc_output_err env of Some e \<Rightarrow> Inl e
      | None \<Rightarrow> Inr \<lparr>oc_filename = filename, oc_bit_rate = 0, oc_has_stream = False,
                     oc_stream_tb = NewRational 0 0, oc_pb = False, oc_phase = Unopened,
                     oc_packets = [], oc_last_dts = None, oc_misuse = False\<rparr>)"

definition NewStream :: "mux_env \<Rightarrow> output_ctx \<Rightarrow> output_ctx option" where
  "NewStream env oc = (if new_stream_ok env then Some (oc\<lparr>oc_has_stream := True\<rparr>) else None)"

text \<open>\<open>outputCtx.WriteHeader(nil)\<close>: \<open>avformat_write_header\<close>.\<close>

definition WriteHeader :: "mux_env \<Rightarrow> output_ctx \<Rightarrow> averror option \<times> output_ctx" where
  "WriteHeader env oc =
     (if oc_phase oc \<noteq> Unopened \<or> \<not> oc_pb oc then (Some ErrEinval, oc\<lparr>oc_misuse := True\<rparr>)
      else case header_err env of Some e \<Rightarrow> (Some e, oc)
      | None \<Rightarrow> (None, oc\<lparr>oc_phase := HeaderWritten, oc_stream_tb := header_tb env (oc_stream_tb oc)\<rparr>))"

text \<open>\<open>outputCtx.WriteFrame(packet)\<close>: \<open>av_write_frame\<close>, the n-th write may fail.\<close>

definition WriteFrame :: "mux_env \<Rightarrow> packet \<Rightarrow> output_ctx \<Rightarrow> averror option \<times> output_ctx" where
  "WriteFrame env p oc =
     (if oc_phase oc \<noteq> HeaderWritten then (Some ErrEinval, oc\<lparr>oc_misuse := True\<rparr>)
      else if (case oc_last_dts oc of None \<Rightarrow> False | Some d \<Rightarrow> pkt_dts p \<le> d) then (Some ErrEinval, oc)
      else case write_err env (length (oc_packets oc)) of Some e \<Rightarrow> (Some e, oc)
      | None \<Rightarrow> (None, oc\<lparr>oc_packets := oc_packets oc @ [p], oc_last_dts := Some (pkt_dts p)\<rparr>))"

text \<open>\<open>outputCtx.WriteTrailer()\<close>: \<open>av_write_trailer\<close>, which finalizes the file.\<close>

definition WriteTrailer :: "mux_env \<Rightarrow> output_ctx \<Rightarrow> averror option \<times> output_ctx" where
  "WriteTrailer env oc =
     (if oc_phase oc \<noteq> HeaderWritten then (Some ErrEinval, oc\<lparr>oc_misuse := True\<rparr>)
      else (trailer_err env, oc\<lparr>oc_phase := TrailerWritten\<rparr>))"

lemma WriteFrame_phase:
  "oc_phase (snd (WriteFrame env p oc)) = oc_phase oc"
  by (simp add: WriteFrame_def split: option.splits)

lemma WriteFrame_None:
  "WriteFrame env p oc = (None, oc') \<Longrightarrow>
     oc_phase oc = HeaderWritten \<and> (\<forall>d. oc_last_dts oc = Some d \<longrightarrow> d < pkt_dts p) \<and>
     oc' = oc\<lparr>oc_packets := oc_packets oc @ [p], oc_last_dts := Some (pkt_dts p)\<rparr>"
  by (auto simp: WriteFrame_def split: if_splits option.splits)

lemma WriteFrame_misuse:
  "oc_phase oc = HeaderWritten \<Longrightarrow> oc_misuse (snd (WriteFrame env p oc)) = oc_misuse oc"
  by (simp add: WriteFrame_def split: option.splits)

lemma WriteFrame_Some_same:
  "oc_phase oc = HeaderWritten \<Longrightarrow> WriteFrame env p oc = (Some e, oc') \<Longrightarrow> oc' = oc"
  by (auto simp: WriteFrame_def split: if_splits option.splits)

definition mux_inv :: "output_ctx \<Rightarrow> bool" where
  "mux_inv oc \<longleftrightarrow> sorted_wrt (<) (map pkt_dts (oc_packets oc)) \<and>
     oc_last_dts oc = (if oc_packets oc = [] then None else Some (pkt_dts (last (oc_packets oc))))"

lemma WriteFrame_mux_inv:
  "WriteFrame env p oc = (None, oc') \<Longrightarrow> mux_inv oc \<Longrightarrow> mux_inv oc'"
proof -
  assume w: "WriteFrame env p oc = (None, oc')" and inv: "mux_inv oc"
  from w have oc': "oc' = oc\<lparr>oc_packets := oc_packets oc @ [p], oc_last_dts := Some (pkt_dts p)\<rparr>"
    and gt: "\<forall>d. oc_last_dts oc = Some d \<longrightarrow> d < pkt_dts p"
    using WriteFrame_None by blast+
  have "\<forall>x \<in> set (map pkt_dts (oc_packets oc)). x < pkt_dts p"
  proof
    fix x assume x: "x \<in> set (map pkt_dts (oc_packets oc))"
    with inv have "x \<le> last (map pkt_dts (oc_packets oc))"
      by (intro sorted_wrt_less_last) (simp_all add: mux_inv_def)
    moreover from x have "oc_packets oc \<noteq> []" by auto
    with inv gt have "last (map pkt_dts (oc_packets oc)) < pkt_dts p"
      by (simp add: mux_inv_def last_map)
    ultimately show "x < pkt_dts p" by simp
  qed
  with inv oc' show ?thesis
    by (simp add: mux_inv_def sorted_wrt_append)
qed


text \<open>
  A well-formed container: its packets have strictly increasing dts, the last dts it
  remembers is the last packet's, and no packet is written before the header.
\<close>

definition oc_wf :: "output_ctx \<Rightarrow> bool" where
  "oc_wf oc \<longleftrightarrow> mux_inv oc \<and> (oc_phase oc = Unopened \<longrightarrow> oc_packets oc = [])"

lemma oc_wf_upd [simp]:
  "oc_wf (oc\<lparr>oc_stream_tb := tb\<rparr>) = oc_wf oc" "oc_wf (oc\<lparr>oc_pb := b\<rparr>) = oc_wf oc"
  "oc_wf (oc\<lparr>oc_misuse := m\<rparr>) = oc_wf oc" "oc_wf (oc\<lparr>oc_has_stream := h\<rparr>) = oc_wf oc"
  by (simp_all add: oc_wf_def mux_inv_def)

lemma AllocOutputFormatContext_wf [container_wf]:
  "AllocOutputFormatContext env f = Inr oc \<Longrightarrow> oc_wf oc"
  by (auto simp: AllocOutputFormatContext_def oc_wf_def mux_inv_def split: option.splits)

lemma NewStream_wf [container_wf]:
  "NewStream env oc = Some oc' \<Longrightarrow> oc_wf oc \<Longrightarrow> oc_wf oc'"
  by (auto simp: NewStream_def split: if_splits)

lemma WriteHeader_wf [container_wf]:
  "WriteHeader env oc = (r, oc') \<Longrightarrow> oc_wf oc \<Longrightarrow> oc_wf oc'"
  by (auto simp: WriteHeader_def oc_wf_def mux_inv_def split: if_splits option.splits)

lemma WriteFrame_wf [container_wf]:
  "WriteFrame env p oc = (r, oc') \<Longrightarrow> oc_wf oc \<Longrightarrow> oc_wf oc'"
proof (cases r)
  case None
  assume w: "WriteFrame env p oc = (r, oc')" and wf: "oc_wf oc"
  with None have "mux_inv oc'" by (auto simp: oc_wf_def intro: WriteFrame_mux_inv)
  moreover have "oc_phase oc' = HeaderWritten"
    using WriteFrame_None [of env p oc oc'] w None by auto
  ultimately show ?thesis by (simp add: oc_wf_def)
next
  case (Some e)
  assume "WriteFrame env p oc = (r, oc')" "oc_wf oc"
  with Some show ?thesis
    by (auto simp: WriteFrame_def oc_wf_def mux_inv_def split: if_splits option.splits)
qed

lemma WriteTrailer_wf [container_wf]:
  "WriteTrailer env oc = (r, oc') \<Longrightarrow> oc_wf oc \<Longrightarrow> oc_wf oc'"
  by (auto simp: WriteTrailer_def oc_wf_def mux_inv_def split: if_splits)

end
