(* ===== verification/Pipeline.thy ===== *)
theory Pipeline
  imports Muxer
begin

text \<open>
  The orchestrator: \<open>StartScreenRecording\<close> (src/examples/screenrecorder/screencap.go,
  lines 63-209) as the consumer goroutine sees it. Its locals form the record
  \<open>session\<close>; every \<open>return\<close> of the source is a value of \<open>exit_reason\<close>; Go's
  \<open>defer\<close> stack is the list \<open>s_defers\<close> (newest first), run by \<open>finish\<close> when the
  function returns, whether by a \<open>return\<close> or by a panic. The run records, in
  \<open>s_trace\<close>, every acquisition and release of an FFmpeg object, the header write, the
  trailer write and the cancellation of the context, so that ordering and ownership are
  theorems about the trace. The consumer's input is a list of select outcomes: an image
  received from \<open>imgChan\<close>, or \<open>ctx.Done()\<close> after an interrupt; the producer side
  and the channel itself are in the theory Concurrency.
\<close>

datatype resource = OutputCtx | CodecCtx | IOCtx | Packet nat | Conv nat conv_res

datatype event =
    Res "resource res_event"
  | HeaderWrite
  | TrailerWrite "averror option"
  | Cancel

text \<open>The calls StartScreenRecording defers, in the order the source registers them.\<close>

datatype deferred =
    DeferFreeOutputCtx
  | DeferFreeCodecCtx
  | DeferFreeIOCtx
  | DeferTrailer
  | DeferStop
  | DeferCtxDone
  | DeferFreePacket nat

text \<open>Which \<open>return\<close> the function took (each prints its own message).\<close>

datatype exit_reason =
    ErrCreateOutput go_error
  | ErrCreateEncoder go_error
  | ErrNewStream
  | ErrOpenCodec averror
  | ErrStreamParams averror
  | ErrOpenIO averror
  | ErrWriteHeader averror
  | PanicPts go_panic
  | Interrupted
  | ErrConvert go_error
  | ErrSendFrame averror
  | ErrAllocPacket
  | ErrEncode averror
  | ErrWritePacket averror

text \<open>
  What the FFmpeg side does in one run: the container and codec oracles, the result of
  \<open>encCtx.Open\<close> and the encoder's lookahead, the converter's oracle for the k-th
  image and whether the k-th \<open>AllocPacket\<close> succeeds.
\<close>

record rec_env =
  r_mux :: mux_env
  r_codec :: codec_env
  r_open_err :: "averror option"
  r_delay :: nat
  r_conv :: "nat \<Rightarrow> conv_env"
  r_packet_ok :: "nat \<Rightarrow> bool"

record session =
  s_out :: output_ctx
  s_enc_ctx :: codec_context
  s_enc :: encoder
  s_pts :: int64
  s_frame_number :: int64
  s_images :: nat
  s_cancelled :: bool
  s_defers :: "deferred list"
  s_trace :: "event list"

definition session_init :: session where
  "session_init =
     \<lparr>s_out = \<lparr>oc_filename = [], oc_bit_rate = 0, oc_has_stream = False,
               oc_stream_tb = NewRational 0 0, oc_pb = False, oc_phase = Unopened,
               oc_packets = [], oc_last_dts = None, oc_misuse = False\<rparr>,
      s_enc_ctx = AllocCodecContext \<lparr>codec_name = [], codec_cid = CodecIDH264, codec_is_encoder = False\<rparr>,
      s_enc = encoder_init, s_pts = 0, s_frame_number = 0, s_images = 0, s_cancelled = False,
      s_defers = [], s_trace = []\<rparr>"

definition emit :: "event \<Rightarrow> session \<Rightarrow> session" where
  "emit e s = s\<lparr>s_trace := s_trace s @ [e]\<rparr>"

definition push_defer :: "deferred \<Rightarrow> session \<Rightarrow> session" where
  "push_defer d s = s\<lparr>s_defers := d # s_defers s\<rparr>"

section \<open>Deferred calls\<close>

text \<open>
  One deferred call. The trailer closure (lines 120-127) writes the trailer and prints
  the outcome; \<open>stop()\<close> cancels the signal context; \<open>ctx.Done()\<close> only returns the
  context's channel, so deferring it does nothing.
\<close>

fun run_deferred :: "rec_env \<Rightarrow> deferred \<Rightarrow> session \<Rightarrow> session" where
  "run_deferred env DeferFreeOutputCtx s = emit (Res (Release OutputCtx)) s"
| "run_deferred env DeferFreeCodecCtx s = emit (Res (Release CodecCtx)) s"
| "run_deferred env DeferFreeIOCtx s = emit (Res (Release IOCtx)) s"
| "run_deferred env DeferTrailer s =
     (case WriteTrailer (r_mux env) (s_out s) of
        (err, oc) \<Rightarrow> emit (TrailerWrite err) (s\<lparr>s_out := oc\<rparr>))"
| "run_deferred env DeferStop s = emit Cancel (s\<lparr>s_cancelled := True\<rparr>)"
| "run_deferred env DeferCtxDone s = s"
| "run_deferred env (DeferFreePacket k) s = emit (Res (Release (Packet k))) s"

fun run_defers :: "rec_env \<Rightarrow> deferred list \<Rightarrow> session \<Rightarrow> session" where
  "run_defers env [] s = s"
| "run_defers env (d # ds) s = run_defers env ds (run_deferred env d s)"

definition finish :: "rec_env \<Rightarrow> session \<Rightarrow> exit_reason \<Rightarrow> session \<times> exit_reason option" where
  "finish env s x = (run_defers env (s_defers s) (s\<lparr>s_defers := []\<rparr>), Some x)"

section \<open>Setting up (lines 63-142)\<close>

text \<open>
  Every early \<open>return\<close> is \<open>Inr\<close> with the state reached and the reason; \<open>Inl\<close> is
  the state in which the select loop starts. \<open>SetupFFmpeg\<close> only installs logging and
  is not modelled.
\<close>

definition setup_recording :: "rec_env \<Rightarrow> string \<Rightarrow> int \<Rightarrow> int \<Rightarrow> int \<Rightarrow> session + session \<times> exit_reason" where
  "setup_recording env filename width height fps =
     (case AllocOutputFormatContext (r_mux env) filename of
        Inl e \<Rightarrow> Inr (session_init, ErrCreateOutput e)
      | Inr oc \<Rightarrow>
      let s = push_defer DeferFreeOutputCtx (emit (Res (Acquire OutputCtx)) (session_init\<lparr>s_out := oc\<rparr>))
      in case NewH264EncoderCodec (r_codec env) width height fps (oc_bit_rate (s_out s)) of
        Inl e \<Rightarrow> Inr (s, ErrCreateEncoder e)
      | Inr (c, ctx) \<Rightarrow>
      let s = push_defer DeferFreeCodecCtx (emit (Res (Acquire CodecCtx)) (s\<lparr>s_enc_ctx := ctx\<rparr>))
      in case NewStream (r_mux env) (s_out s) of
        None \<Rightarrow> Inr (s, ErrNewStream)
      | Some oc \<Rightarrow>
      let s = s\<lparr>s_out := oc\<rparr>
      in case CodecContextOpen (r_open_err env) (r_delay env) (s_enc_ctx s) (s_enc s) of
        Inl e \<Rightarrow> Inr (s, ErrOpenCodec e)
      | Inr ec \<Rightarrow>
      let s = s\<lparr>s_enc := ec\<rparr>
      in case params_err (r_mux env) of
        Some e \<Rightarrow> Inr (s, ErrStreamParams e)
      | None \<Rightarrow>
      let s = s\<lparr>s_out := (s_out s)\<lparr>oc_stream_tb := cc_time_base (s_enc_ctx s)\<rparr>\<rparr>
      in case open_io_err (r_mux env) of
        Some e \<Rightarrow> Inr (s, ErrOpenIO e)
      | None \<Rightarrow>
      let s = push_defer DeferFreeIOCtx (emit (Res (Acquire IOCtx)) s);
          s = s\<lparr>s_out := (s_out s)\<lparr>oc_pb := True\<rparr>\<rparr>
      in case WriteHeader (r_mux env) (s_out s) of
        (Some e, oc) \<Rightarrow> Inr (s\<lparr>s_out := oc\<rparr>, ErrWriteHeader e)
      | (None, oc) \<Rightarrow>
      let s = push_defer DeferTrailer (emit HeaderWrite (s\<lparr>s_out := oc\<rparr>))
      in Inl (push_defer DeferStop s))"

text \<open>\<open>pts := int64((90 * 1000) / fps)\<close> (line 147): Go's division, which panics on 0.\<close>

definition pts_increment :: "int \<Rightarrow> go_panic + int64" where
  "pts_increment fps =
     (case go_div (90 * 1000) fps of Inl p \<Rightarrow> Inl p | Inr q \<Rightarrow> Inr (word_of_int q))"

section \<open>The select loop (lines 151-208)\<close>

text \<open>
  The inner \<open>for\<close> loop of lines 187-206: receive packets until the encoder answers
  \<open>ErrEof\<close> or \<open>ErrEagain\<close>, rescale each from the codec's to the stream's time base
  and write it. It stops because each packet received shortens the encoder's queue.
\<close>

definition rescale_to_stream :: "session \<Rightarrow> packet \<Rightarrow> packet" where
  "rescale_to_stream s p = av_packet_rescale_ts p (cc_time_base (s_enc_ctx s)) (oc_stream_tb (s_out s))"

function drain :: "rec_env \<Rightarrow> session \<Rightarrow> session \<times> exit_reason option" where
  "drain env s =
     (case ReceivePacket (s_enc s) of
        (Inl e, ec) \<Rightarrow>
          if e = ErrEof \<or> e = ErrEagain then (s\<lparr>s_enc := ec\<rparr>, None)
          else (push_defer DeferCtxDone (s\<lparr>s_enc := ec\<rparr>), Some (ErrEncode e))
      | (Inr p, ec) \<Rightarrow>
          (case WriteFrame (r_mux env) (rescale_to_stream s p) (s_out s) of
             (Some e, oc) \<Rightarrow> (push_defer DeferCtxDone (s\<lparr>s_enc := ec, s_out := oc\<rparr>), Some (ErrWritePacket e))
           | (None, oc) \<Rightarrow> drain env (s\<lparr>s_enc := ec, s_out := oc\<rparr>)))"
  by pat_completeness auto
termination
  by (relation "measure (\<lambda>(env, s). length (enc_queue (s_enc s)))") (auto dest: ReceivePacket_Inr_shorter)

declare drain.simps [simp del]

text \<open>
  One image received from the channel (lines 155-206). The converter's trace is
  renamed to the k-th image's objects; the converted frame is stamped with
  \<open>frameNumber * pts\<close> in int64 arithmetic; the packet's \<open>defer packet.Free()\<close> is
  pushed on the function's defer stack, so it runs only when StartScreenRecording
  returns.
\<close>

definition process_image :: "rec_env \<Rightarrow> image_rgba \<Rightarrow> session \<Rightarrow> session \<times> exit_reason option" where
  "process_image env img s =
     (let k = s_images s;
          (r, ctr) = ImageRGBAtoAVFrame (r_conv env k) img;
          s = s\<lparr>s_images := Suc k, s_trace := s_trace s @ map (\<lambda>e. Res (map_res_event (Conv k) e)) ctr\<rparr>
      in case r of
        Inl e \<Rightarrow> (push_defer DeferCtxDone s, Some (ErrConvert e))
      | Inr frame \<Rightarrow>
      let frame = frame\<lparr>fr_pts := sint (s_frame_number s * s_pts s)\<rparr>
      in case SendFrame (Some frame) (s_enc s) of
        Inl e \<Rightarrow> (push_defer DeferCtxDone s, Some (ErrSendFrame e))
      | Inr ec \<Rightarrow>
      let s = s\<lparr>s_enc := ec, s_frame_number := s_frame_number s + 1\<rparr>
      in if \<not> r_packet_ok env k then (push_defer DeferCtxDone s, Some ErrAllocPacket)
         else drain env (push_defer (DeferFreePacket k) (emit (Res (Acquire (Packet k))) s)))"

datatype cons_event = EvDone | EvImage image_rgba

text \<open>
  The select of lines 152-207 over a list of outcomes: \<open>EvDone\<close> is the
  \<open>ctx.Done()\<close> branch, taken after an interrupt cancelled the context. Running out
  of outcomes means the goroutine is still waiting in the select.
\<close>

fun consume :: "rec_env \<Rightarrow> cons_event list \<Rightarrow> session \<Rightarrow> session \<times> exit_reason option" where
  "consume env [] s = (s, None)"
| "consume env (EvDone # evs) s = (s\<lparr>s_cancelled := True\<rparr>, Some Interrupted)"
| "consume env (EvImage img # evs) s =
     (case process_image env img s of
        (s', None) \<Rightarrow> consume env evs s'
      | (s', Some x) \<Rightarrow> (s', Some x))"

definition StartScreenRecording ::
  "rec_env \<Rightarrow> string \<Rightarrow> int \<Rightarrow> int \<Rightarrow> int \<Rightarrow> cons_event list \<Rightarrow> session \<times> exit_reason option" where
  "StartScreenRecording env filename width height fps evs =
     (case setup_recording env filename width height fps of
        Inr (s, x) \<Rightarrow> finish env s x
      | Inl s \<Rightarrow>
          (case pts_increment fps of
             Inl p \<Rightarrow> finish env s (PanicPts p)
           | Inr inc \<Rightarrow>
               (case consume env evs (s\<lparr>s_pts := inc, s_frame_number := 0\<rparr>) of
                  (s', None) \<Rightarrow> (s', None)
                | (s', Some x) \<Rightarrow> finish env s' x)))"

text \<open>\<open>main\<close> (lines 56-61): record the whole first display at 30 frames per second.\<close>

definition main :: "rec_env \<Rightarrow> rectangle \<Rightarrow> cons_event list \<Rightarrow> session \<times> exit_reason option" where
  "main env bounds evs = StartScreenRecording env ''output.mp4'' (Dx bounds) (Dy bounds) 30 evs"

end
