(* ===== verification/Orchestrator.thy ===== *)
theory Orchestrator
  imports Pipeline
begin

text \<open>
  Invariants of StartScreenRecording. \<open>setup_recording_Inl\<close> describes the state in
  which the select loop starts; \<open>flow_inv\<close> relates the container's packets and the
  encoder's queue to the timestamps handed to the encoder, and the drain loop keeps it;
  \<open>loop_inv\<close> is the exact state at the top of the select loop after \<open>n\<close> images
  (timestamps, lookahead, defer stack, trace); \<open>exit_inv\<close> is what every return from
  inside the loop leaves behind, enough for the deferred calls to finalise the file.
\<close>

lemma emit_simps [simp]:
  "s_out (emit e s) = s_out s" "s_enc (emit e s) = s_enc s" "s_enc_ctx (emit e s) = s_enc_ctx s"
  "s_defers (emit e s) = s_defers s" "s_trace (emit e s) = s_trace s @ [e]"
  "s_images (emit e s) = s_images s" "s_pts (emit e s) = s_pts s"
  "s_frame_number (emit e s) = s_frame_number s" "s_cancelled (emit e s) = s_cancelled s"
  by (simp_all add: emit_def)

lemma push_defer_simps [simp]:
  "s_out (push_defer d s) = s_out s" "s_enc (push_defer d s) = s_enc s"
  "s_enc_ctx (push_defer d s) = s_enc_ctx s"
  "s_defers (push_defer d s) = d # s_defers s" "s_trace (push_defer d s) = s_trace s"
  "s_images (push_defer d s) = s_images s" "s_pts (push_defer d s) = s_pts s"
  "s_frame_number (push_defer d s) = s_frame_number s" "s_cancelled (push_defer d s) = s_cancelled s"
  by (simp_all add: push_defer_def)

definition base_defers :: "deferred list" where
  "base_defers = [DeferStop, DeferTrailer, DeferFreeIOCtx, DeferFreeCodecCtx, DeferFreeOutputCtx]"

definition setup_trace :: "event list" where
  "setup_trace = [Res (Acquire OutputCtx), Res (Acquire CodecCtx), Res (Acquire IOCtx), HeaderWrite]"

definition setup_ok :: "rec_env \<Rightarrow> bool" where
  "setup_ok env \<longleftrightarrow> alloc_output_err (r_mux env) = None \<and>
     FindEncoder (codec_registry (r_codec env)) CodecIDH264 \<noteq> None \<and> ctx_alloc_ok (r_codec env) \<and>
     new_stream_ok (r_mux env) \<and> r_open_err env = None \<and> params_err (r_mux env) = None \<and>
     open_io_err (r_mux env) = None \<and> header_err (r_mux env) = None"

lemmas setup_calls_defs = AllocOutputFormatContext_def NewStream_def CodecContextOpen_def WriteHeader_def
  session_init_def encoder_init_def

lemma setup_recording_Inl:
  assumes "setup_recording env f w h fps = Inl s"
  shows "setup_ok env \<and> oc_phase (s_out s) = HeaderWritten \<and> \<not> oc_misuse (s_out s) \<and>
    oc_packets (s_out s) = [] \<and> oc_last_dts (s_out s) = None \<and>
    oc_stream_tb (s_out s) = header_tb (r_mux env) (NewRational 1 90000) \<and>
    s_enc s = encoder_init\<lparr>enc_opened := True, enc_delay := r_delay env\<rparr> \<and>
    cc_time_base (s_enc_ctx s) = NewRational 1 90000 \<and> cc_bit_rate (s_enc_ctx s) = 0 \<and>
    s_defers s = base_defers \<and> s_trace s = setup_trace \<and> s_images s = 0"
  using assms
  by (auto simp: setup_recording_def setup_ok_def base_defers_def setup_trace_def setup_calls_defs
      NewH264EncoderCodec_def AllocCodecContext_def NewRational_def valid_tb_def Let_def emit_def push_defer_def
      split: sum.splits option.splits if_splits prod.splits)

definition written :: "session \<Rightarrow> int list \<Rightarrow> packet list" where
  "written s ts = map (\<lambda>t. rescale_to_stream s (packet_of t)) ts"

definition flow_inv :: "session \<Rightarrow> int list \<Rightarrow> bool" where
  "flow_inv s ts \<longleftrightarrow> oc_phase (s_out s) = HeaderWritten \<and> \<not> oc_misuse (s_out s) \<and>
     enc_opened (s_enc s) \<and> \<not> enc_draining (s_enc s) \<and> mux_inv (s_out s) \<and>
     (\<exists>m. oc_packets (s_out s) = written s (take m ts) \<and> enc_queue (s_enc s) = drop m ts)"

lemma rescale_to_stream_cong:
  "s_enc_ctx s' = s_enc_ctx s \<Longrightarrow> oc_stream_tb (s_out s') = oc_stream_tb (s_out s) \<Longrightarrow>
     rescale_to_stream s' = rescale_to_stream s"
  by (simp add: rescale_to_stream_def fun_eq_iff)

lemma written_cong:
  "s_enc_ctx s' = s_enc_ctx s \<Longrightarrow> oc_stream_tb (s_out s') = oc_stream_tb (s_out s) \<Longrightarrow>
     written s' = written s"
  using rescale_to_stream_cong [of s' s] by (simp add: written_def fun_eq_iff)

definition drain_frame :: "session \<Rightarrow> session \<Rightarrow> bool" where
  "drain_frame s s' \<longleftrightarrow> s_enc_ctx s' = s_enc_ctx s \<and> oc_stream_tb (s_out s') = oc_stream_tb (s_out s) \<and>
     s_trace s' = s_trace s \<and> s_images s' = s_images s \<and> s_pts s' = s_pts s \<and>
     s_frame_number s' = s_frame_number s \<and> enc_delay (s_enc s') = enc_delay (s_enc s) \<and>
     enc_last_pts (s_enc s') = enc_last_pts (s_enc s) \<and> enc_opened (s_enc s') = enc_opened (s_enc s) \<and>
     enc_draining (s_enc s') = enc_draining (s_enc s) \<and> oc_phase (s_out s') = oc_phase (s_out s) \<and>
     oc_misuse (s_out s') = oc_misuse (s_out s)"

lemma flow_inv_write:
  assumes inv: "flow_inv s ts" and rp: "ReceivePacket (s_enc s) = (Inr p, ec)"
    and wf: "WriteFrame (r_mux env) (rescale_to_stream s p) (s_out s) = (None, oc)"
  shows "flow_inv (s\<lparr>s_enc := ec, s_out := oc\<rparr>) ts"
proof -
  let ?s1 = "s\<lparr>s_enc := ec, s_out := oc\<rparr>"
  from rp have q: "enc_queue (s_enc s) = pkt_pts p # enc_queue ec"
    "p = packet_of (pkt_pts p)" "ec = s_enc s\<lparr>enc_queue := tl (enc_queue (s_enc s))\<rparr>"
    using ReceivePacket_Inr_queue by blast+
  from wf have oc: "oc = (s_out s)\<lparr>oc_packets := oc_packets (s_out s) @ [rescale_to_stream s p],
      oc_last_dts := Some (pkt_dts (rescale_to_stream s p))\<rparr>"
    using WriteFrame_None by blast
  have wr: "written ?s1 = written s"
    using oc by (intro written_cong) simp_all
  from inv obtain m where m: "oc_packets (s_out s) = written s (take m ts)" "enc_queue (s_enc s) = drop m ts"
    by (auto simp: flow_inv_def)
  with q have tk: "take (Suc m) ts = take m ts @ [pkt_pts p]" "drop (Suc m) ts = enc_queue ec"
    using drop_eq_ConsD by metis+
  have "oc_packets oc = written ?s1 (take (Suc m) ts)"
    using oc m(1) tk(1) q(2) wr by (simp add: written_def)
  moreover have "enc_queue (s_enc ?s1) = drop (Suc m) ts"
    using tk(2) by simp
  moreover have "mux_inv oc"
    using WriteFrame_mux_inv [OF wf] inv by (simp add: flow_inv_def)
  ultimately show ?thesis
    using inv oc q(3) by (auto simp: flow_inv_def)
qed

lemma drain_inv:
  "drain env s = (s', r) \<Longrightarrow> flow_inv s ts \<Longrightarrow>
     drain_frame s s' \<and>
     (r = None \<longrightarrow> flow_inv s' ts \<and> s_defers s' = s_defers s \<and>
        length (enc_queue (s_enc s')) = min (length (enc_queue (s_enc s))) (enc_delay (s_enc s))) \<and>
     (r \<noteq> None \<longrightarrow> s_defers s' = DeferCtxDone # s_defers s \<and> (\<exists>e. r = Some (ErrWritePacket e)))"
proof (induction env s arbitrary: s' r rule: drain.induct)
  case (1 env s)
  note inv = "1.prems"(2)
  from inv have run: "enc_opened (s_enc s)" "\<not> enc_draining (s_enc s)"
    by (simp_all add: flow_inv_def)
  obtain x ec where rp: "ReceivePacket (s_enc s) = (x, ec)"
    by (cases "ReceivePacket (s_enc s)")
  show ?case
  proof (cases x)
    case (Inl e)
    with rp run have e: "e = ErrEagain" "ec = s_enc s" "length (enc_queue (s_enc s)) \<le> enc_delay (s_enc s)"
      using ReceivePacket_running by blast+
    with "1.prems"(1) rp Inl have "s' = s" "r = None"
      by (simp_all add: drain.simps)
    with e inv show ?thesis
      by (simp add: drain_frame_def)
  next
    case (Inr p)
    from rp Inr have q: "enc_queue (s_enc s) = pkt_pts p # enc_queue ec"
      "p = packet_of (pkt_pts p)" "ec = s_enc s\<lparr>enc_queue := tl (enc_queue (s_enc s))\<rparr>"
      using ReceivePacket_Inr_queue by blast+
    from rp Inr run have longer: "enc_delay (s_enc s) < length (enc_queue (s_enc s))"
      using ReceivePacket_running by blast
    obtain w oc where wf: "WriteFrame (r_mux env) (rescale_to_stream s p) (s_out s) = (w, oc)"
      by (cases "WriteFrame (r_mux env) (rescale_to_stream s p) (s_out s)")
    from inv have hw: "oc_phase (s_out s) = HeaderWritten"
      by (simp add: flow_inv_def)
    show ?thesis
    proof (cases w)
      case None
      let ?s1 = "s\<lparr>s_enc := ec, s_out := oc\<rparr>"
      from wf None have oc: "oc = (s_out s)\<lparr>oc_packets := oc_packets (s_out s) @ [rescale_to_stream s p],
          oc_last_dts := Some (pkt_dts (rescale_to_stream s p))\<rparr>"
        using WriteFrame_None by blast
      from "1.prems"(1) rp Inr wf None have d: "drain env ?s1 = (s', r)"
        by (simp add: drain.simps)
      have flow1: "flow_inv ?s1 ts"
        using flow_inv_write [OF inv rp [unfolded Inr] wf [unfolded None]] .
      have IH: "drain_frame ?s1 s' \<and>
          (r = None \<longrightarrow> flow_inv s' ts \<and> s_defers s' = s_defers ?s1 \<and>
             length (enc_queue (s_enc s')) = min (length (enc_queue (s_enc ?s1))) (enc_delay (s_enc ?s1))) \<and>
          (r \<noteq> None \<longrightarrow> s_defers s' = DeferCtxDone # s_defers ?s1 \<and> (\<exists>e. r = Some (ErrWritePacket e)))"
        using "1.IH" [OF rp [symmetric] Inr wf [symmetric] None d flow1] .
      have fr: "drain_frame s ?s1"
        using oc q(3) by (simp add: drain_frame_def)
      have "length (enc_queue (s_enc ?s1)) = length (enc_queue (s_enc s)) - 1"
        using q(1) by simp
      with longer q(3) have "min (length (enc_queue (s_enc ?s1))) (enc_delay (s_enc ?s1))
          = min (length (enc_queue (s_enc s))) (enc_delay (s_enc s))"
        by simp
      with IH fr show ?thesis
        by (auto simp: drain_frame_def)
    next
      case (Some e)
      from wf Some hw have "oc = s_out s"
        using WriteFrame_Some_same by blast
      with "1.prems"(1) rp Inr wf Some have "s' = push_defer DeferCtxDone (s\<lparr>s_enc := ec, s_out := s_out s\<rparr>)"
        "r = Some (ErrWritePacket e)"
        by (simp_all add: drain.simps)
      with q(3) show ?thesis
        by (simp add: drain_frame_def)
    qed
  qed
qed

definition frame_pts :: "int64 \<Rightarrow> nat \<Rightarrow> int" where
  "frame_pts inc i = sint (word_of_nat i * inc)"

definition sent_pts :: "int64 \<Rightarrow> nat \<Rightarrow> int list" where
  "sent_pts inc n = map (frame_pts inc) [0..<n]"

definition conv_trace :: "nat \<Rightarrow> event list" where
  "conv_trace k = map (\<lambda>e. Res (map_res_event (Conv k) e))
     [Acquire SrcFrame, Acquire ColoredFrame, Acquire SwsContext, Release SwsContext, Release SrcFrame]"

definition iter_trace :: "nat \<Rightarrow> event list" where
  "iter_trace k = conv_trace k @ [Res (Acquire (Packet k))]"

definition body_event :: "event \<Rightarrow> bool" where
  "body_event e \<longleftrightarrow> (\<exists>k c. e = Res (Acquire (Conv k c)) \<or> e = Res (Release (Conv k c))) \<or>
     (\<exists>k. e = Res (Acquire (Packet k)))"

definition loop_inv :: "rec_env \<Rightarrow> session \<Rightarrow> bool" where
  "loop_inv env s \<longleftrightarrow>
     flow_inv s (sent_pts (s_pts s) (s_images s)) \<and> sorted_wrt (<) (sent_pts (s_pts s) (s_images s)) \<and>
     enc_delay (s_enc s) = r_delay env \<and>
     cc_time_base (s_enc_ctx s) = NewRational 1 90000 \<and>
     oc_stream_tb (s_out s) = header_tb (r_mux env) (NewRational 1 90000) \<and>
     length (enc_queue (s_enc s)) = min (s_images s) (r_delay env) \<and>
     enc_last_pts (s_enc s) =
       (if s_images s = 0 then None else Some (last (sent_pts (s_pts s) (s_images s)))) \<and>
     s_frame_number s = word_of_nat (s_images s) \<and>
     s_defers s = map DeferFreePacket (rev [0..<s_images s]) @ base_defers \<and>
     s_trace s = setup_trace @ concat (map iter_trace [0..<s_images s])"

fun res_events :: "event list \<Rightarrow> resource res_event list" where
  "res_events [] = []"
| "res_events (Res r # es) = r # res_events es"
| "res_events (_ # es) = res_events es"

lemma res_events_append [simp]:
  "res_events (xs @ ys) = res_events xs @ res_events ys"
  by (induction xs rule: res_events.induct) auto

lemma res_events_map_Res [simp]:
  "res_events (map (\<lambda>e. Res (f e)) xs) = map f xs"
  by (induction xs) auto

definition leak_ok :: "event list \<Rightarrow> bool" where
  "leak_ok body \<longleftrightarrow> leaked (res_events body) \<subseteq> range Packet \<union> range (\<lambda>k. Conv k ColoredFrame)"

lemma leak_ok_append:
  "leak_ok xs \<Longrightarrow> leak_ok ys \<Longrightarrow> leak_ok (xs @ ys)"
  using leaked_append_subset [of "res_events xs" "res_events ys"] by (auto simp: leak_ok_def)

lemma leak_ok_conv:
  "snd (ImageRGBAtoAVFrame cenv img) = ctr \<Longrightarrow>
     leak_ok (map (\<lambda>e. Res (map_res_event (Conv k) e)) ctr)"
  using ImageRGBAtoAVFrame_trace_cases [of cenv img] by (auto simp: leak_ok_def leaked_def)

lemma leak_ok_iter:
  "leak_ok (concat (map iter_trace [0..<n]))"
proof (induction n)
  case 0
  then show ?case by (simp add: leak_ok_def leaked_def)
next
  case (Suc n)
  have "leak_ok (iter_trace n)"
    by (auto simp: leak_ok_def leaked_def iter_trace_def conv_trace_def)
  with Suc show ?case by (simp add: leak_ok_append)
qed

text \<open>
  The state at a return from inside the select loop (an error of one iteration, or
  the cancellation): the header is written, the deferred calls are the loop's
  own (\<open>ctx.Done\<close> and packet frees) above the five of the setup, every packet
  acquired has its free deferred, and what the loop leaves acquired is packets and
  colored frames only.
\<close>

definition exit_inv :: "session \<Rightarrow> bool" where
  "exit_inv s \<longleftrightarrow> oc_phase (s_out s) = HeaderWritten \<and> \<not> oc_misuse (s_out s) \<and>
     (\<exists>pre body. s_defers s = pre @ base_defers \<and> s_trace s = setup_trace @ body \<and>
        (\<forall>d \<in> set pre. d = DeferCtxDone \<or> (\<exists>k. d = DeferFreePacket k)) \<and>
        (\<forall>e \<in> set body. body_event e) \<and>
        (\<forall>k. Res (Acquire (Packet k)) \<in> set body \<longrightarrow> DeferFreePacket k \<in> set pre) \<and>
        leak_ok body)"

lemma exit_invE:
  assumes "exit_inv s"
  obtains pre body where "oc_phase (s_out s) = HeaderWritten" "\<not> oc_misuse (s_out s)"
    "s_defers s = pre @ base_defers" "s_trace s = setup_trace @ body"
    "\<forall>d \<in> set pre. d = DeferCtxDone \<or> (\<exists>k. d = DeferFreePacket k)"
    "\<forall>e \<in> set body. body_event e"
    "\<forall>k. Res (Acquire (Packet k)) \<in> set body \<longrightarrow> DeferFreePacket k \<in> set pre"
    "leak_ok body"
  using assms unfolding exit_inv_def by blast

lemma exit_inv_upd [simp]:
  "exit_inv (s\<lparr>s_enc := x\<rparr>) = exit_inv s" "exit_inv (s\<lparr>s_images := n\<rparr>) = exit_inv s"
  "exit_inv (s\<lparr>s_frame_number := w\<rparr>) = exit_inv s" "exit_inv (s\<lparr>s_pts := p\<rparr>) = exit_inv s"
  by (simp_all add: exit_inv_def)

lemma exit_inv_ctxdone:
  assumes "exit_inv s"
  shows "exit_inv (push_defer DeferCtxDone s)"
proof -
  from assms obtain pre body where p: "oc_phase (s_out s) = HeaderWritten" "\<not> oc_misuse (s_out s)"
    "s_defers s = pre @ base_defers" "s_trace s = setup_trace @ body"
    "\<forall>d \<in> set pre. d = DeferCtxDone \<or> (\<exists>k. d = DeferFreePacket k)"
    "\<forall>e \<in> set body. body_event e"
    "\<forall>k. Res (Acquire (Packet k)) \<in> set body \<longrightarrow> DeferFreePacket k \<in> set pre" "leak_ok body"
    by (rule exit_invE)
  show ?thesis
    unfolding exit_inv_def
    using p by (intro conjI exI [of _ "DeferCtxDone # pre"] exI [of _ body]) auto
qed

lemma body_event_conv:
  "body_event (Res (map_res_event (Conv k) x))"
  by (cases x) (auto simp: body_event_def)

lemma conv_not_packet:
  "Acquire (Packet k') \<noteq> map_res_event (Conv k) x"
  by (cases x) auto

lemma exit_inv_conv:
  assumes "exit_inv s" "snd (ImageRGBAtoAVFrame cenv img) = ctr"
  shows "exit_inv (s\<lparr>s_trace := s_trace s @ map (\<lambda>e. Res (map_res_event (Conv k) e)) ctr\<rparr>)"
proof -
  from assms(1) obtain pre body where p: "oc_phase (s_out s) = HeaderWritten" "\<not> oc_misuse (s_out s)"
    "s_defers s = pre @ base_defers" "s_trace s = setup_trace @ body"
    "\<forall>d \<in> set pre. d = DeferCtxDone \<or> (\<exists>k. d = DeferFreePacket k)"
    "\<forall>e \<in> set body. body_event e"
    "\<forall>k. Res (Acquire (Packet k)) \<in> set body \<longrightarrow> DeferFreePacket k \<in> set pre" "leak_ok body"
    by (rule exit_invE)
  let ?b = "body @ map (\<lambda>e. Res (map_res_event (Conv k) e)) ctr"
  have "\<forall>e \<in> set ?b. body_event e"
    using p(6) body_event_conv by auto
  moreover have "\<forall>k'. Res (Acquire (Packet k')) \<in> set ?b \<longrightarrow> DeferFreePacket k' \<in> set pre"
    using p(7) conv_not_packet by auto
  moreover have "leak_ok ?b"
    using p(8) leak_ok_conv [OF assms(2)] by (rule leak_ok_append)
  ultimately show ?thesis
    unfolding exit_inv_def
    using p by (intro conjI exI [of _ pre] exI [of _ ?b]) auto
qed

lemma exit_inv_packet:
  assumes "exit_inv s"
  shows "exit_inv (push_defer (DeferFreePacket k) (emit (Res (Acquire (Packet k))) s))"
proof -
  from assms obtain pre body where p: "oc_phase (s_out s) = HeaderWritten" "\<not> oc_misuse (s_out s)"
    "s_defers s = pre @ base_defers" "s_trace s = setup_trace @ body"
    "\<forall>d \<in> set pre. d = DeferCtxDone \<or> (\<exists>k. d = DeferFreePacket k)"
    "\<forall>e \<in> set body. body_event e"
    "\<forall>k. Res (Acquire (Packet k)) \<in> set body \<longrightarrow> DeferFreePacket k \<in> set pre" "leak_ok body"
    by (rule exit_invE)
  have "leak_ok (body @ [Res (Acquire (Packet k))])"
    using p(8) by (rule leak_ok_append) (simp add: leak_ok_def leaked_def)
  then show ?thesis
    unfolding exit_inv_def using p
    by (intro conjI exI [of _ "DeferFreePacket k # pre"] exI [of _ "body @ [Res (Acquire (Packet k))]"])
       (auto simp: body_event_def)
qed

lemma iter_trace_packets:
  "Res (Acquire (Packet k)) \<in> set (concat (map iter_trace [0..<n])) \<longleftrightarrow> k < n"
  by (auto simp: iter_trace_def conv_trace_def)

lemma iter_trace_body:
  "e \<in> set (concat (map iter_trace [0..<n])) \<Longrightarrow> body_event e"
  by (auto simp: iter_trace_def conv_trace_def body_event_def)

lemma loop_inv_exit_inv:
  assumes "loop_inv env s"
  shows "exit_inv s"
proof -
  let ?pre = "map DeferFreePacket (rev [0..<s_images s])"
  let ?body = "concat (map iter_trace [0..<s_images s])"
  from assms have "oc_phase (s_out s) = HeaderWritten" "\<not> oc_misuse (s_out s)"
    "s_defers s = ?pre @ base_defers" "s_trace s = setup_trace @ ?body"
    by (simp_all add: loop_inv_def flow_inv_def)
  moreover have "\<forall>k. Res (Acquire (Packet k)) \<in> set ?body \<longrightarrow> DeferFreePacket k \<in> set ?pre"
    by (simp only: iter_trace_packets) simp
  moreover have "\<forall>e \<in> set ?body. body_event e"
    using iter_trace_body by blast
  ultimately show ?thesis
    unfolding exit_inv_def using leak_ok_iter
    by (intro conjI exI [of _ ?pre] exI [of _ ?body]) auto
qed

lemma flow_inv_send:
  assumes "flow_inv s ts"
  shows "flow_inv (s\<lparr>s_enc := (s_enc s)\<lparr>enc_queue := enc_queue (s_enc s) @ [t], enc_last_pts := lp\<rparr>\<rparr>) (ts @ [t])"
proof -
  from assms obtain m where m: "oc_packets (s_out s) = written s (take m ts)" "enc_queue (s_enc s) = drop m ts"
    by (auto simp: flow_inv_def)
  let ?m = "min m (length ts)"
  have "take m ts = take ?m ts" "drop m ts = drop ?m ts"
    by (simp_all add: min_def)
  with m have "oc_packets (s_out s) = written s (take ?m (ts @ [t]))"
    "enc_queue (s_enc s) @ [t] = drop ?m (ts @ [t])"
    by simp_all
  moreover have "written (s\<lparr>s_enc := (s_enc s)\<lparr>enc_queue := enc_queue (s_enc s) @ [t], enc_last_pts := lp\<rparr>\<rparr>) = written s"
    by (intro written_cong) simp_all
  ultimately show ?thesis
    using assms unfolding flow_inv_def by (intro conjI exI [of _ ?m]) simp_all
qed

lemma exit_inv_transfer:
  assumes "exit_inv s" "oc_phase (s_out s') = oc_phase (s_out s)" "oc_misuse (s_out s') = oc_misuse (s_out s)"
    "s_trace s' = s_trace s" "s_defers s' = s_defers s \<or> s_defers s' = DeferCtxDone # s_defers s"
  shows "exit_inv s'"
proof -
  from assms(1) obtain pre body where p: "oc_phase (s_out s) = HeaderWritten" "\<not> oc_misuse (s_out s)"
    "s_defers s = pre @ base_defers" "s_trace s = setup_trace @ body"
    "\<forall>d \<in> set pre. d = DeferCtxDone \<or> (\<exists>k. d = DeferFreePacket k)"
    "\<forall>e \<in> set body. body_event e"
    "\<forall>k. Res (Acquire (Packet k)) \<in> set body \<longrightarrow> DeferFreePacket k \<in> set pre" "leak_ok body"
    by (rule exit_invE)
  from assms(5) obtain pre' where "s_defers s' = pre' @ base_defers" "pre' = pre \<or> pre' = DeferCtxDone # pre"
    using p(3) by auto
  then show ?thesis
    unfolding exit_inv_def using p assms(2-4)
    by (intro conjI exI [of _ pre'] exI [of _ body]) auto
qed

lemma flow_inv_frame:
  "s_out s' = s_out s \<Longrightarrow> s_enc s' = s_enc s \<Longrightarrow> s_enc_ctx s' = s_enc_ctx s \<Longrightarrow>
     flow_inv s' ts = flow_inv s ts"
  using written_cong [of s' s] by (simp add: flow_inv_def)

lemma sent_pts_Suc:
  "sent_pts inc (Suc n) = sent_pts inc n @ [frame_pts inc n]"
  by (simp add: sent_pts_def)

lemma sent_pts_exact:
  assumes "0 \<le> q" "int n * q \<le> INT64_MAX"
  shows "sent_pts (word_of_int q) n = map (\<lambda>i. int i * q) [0..<n]"
proof -
  have "frame_pts (word_of_int q) i = int i * q" if "i < n" for i
  proof -
    from that assms(1) have "int i * q \<le> int n * q"
      by (simp add: mult_right_mono)
    with assms show ?thesis
      unfolding frame_pts_def by (intro sint_of_nat_mult) simp_all
  qed
  then show ?thesis
    by (simp add: sent_pts_def)
qed

lemma rescale_packet_of_same:
  "valid_tb tb \<Longrightarrow> 0 \<le> t \<Longrightarrow> t \<le> INT64_MAX \<Longrightarrow> av_packet_rescale_ts (packet_of t) tb tb = packet_of t"
  by (simp add: av_packet_rescale_ts_def packet_of_def av_rescale_q_same_tb AV_NOPTS_VALUE_def
      INT64_MIN_def INT64_MAX_def)

lemma written_identity:
  assumes "cc_time_base (s_enc_ctx s) = NewRational 1 90000" "oc_stream_tb (s_out s) = NewRational 1 90000"
    "\<forall>t\<in>set ts. 0 \<le> t \<and> t \<le> INT64_MAX"
  shows "written s ts = map packet_of ts"
  using assms by (simp add: written_def rescale_to_stream_def rescale_packet_of_same valid_tb_def NewRational_def)

lemma drain_ok:
  "drain env s = (s', r) \<Longrightarrow> flow_inv s ts \<Longrightarrow> sorted_wrt (<) ts \<Longrightarrow>
   \<forall>t\<in>set ts. 0 \<le> t \<and> t \<le> INT64_MAX \<Longrightarrow>
   cc_time_base (s_enc_ctx s) = NewRational 1 90000 \<Longrightarrow> oc_stream_tb (s_out s) = NewRational 1 90000 \<Longrightarrow>
   \<forall>i. write_err (r_mux env) i = None \<Longrightarrow> r = None"
proof (induction env s arbitrary: s' r rule: drain.induct)
  case (1 env s)
  note inv = "1.prems"(2) and srt = "1.prems"(3) and rng = "1.prems"(4) and tb = "1.prems"(5,6)
    and we = "1.prems"(7)
  from inv have run: "enc_opened (s_enc s)" "\<not> enc_draining (s_enc s)"
    by (simp_all add: flow_inv_def)
  obtain x ec where rp: "ReceivePacket (s_enc s) = (x, ec)"
    by (cases "ReceivePacket (s_enc s)")
  show ?case
  proof (cases x)
    case (Inl e)
    with rp run have "e = ErrEagain"
      using ReceivePacket_running by blast
    with "1.prems"(1) rp Inl show ?thesis
      by (simp add: drain.simps)
  next
    case (Inr p)
    from rp Inr have q: "enc_queue (s_enc s) = pkt_pts p # enc_queue ec"
      "p = packet_of (pkt_pts p)" "ec = s_enc s\<lparr>enc_queue := tl (enc_queue (s_enc s))\<rparr>"
      using ReceivePacket_Inr_queue by blast+
    from inv obtain m where m: "oc_packets (s_out s) = written s (take m ts)" "enc_queue (s_enc s) = drop m ts"
      by (auto simp: flow_inv_def)
    have ts: "ts = take m ts @ pkt_pts p # enc_queue ec"
      using append_take_drop_id [of m ts] m(2) q(1) by simp
    then have "pkt_pts p \<in> set ts"
      by (metis Un_iff list.set_intros(1) set_append)
    with rng have t: "0 \<le> pkt_pts p" "pkt_pts p \<le> INT64_MAX"
      by simp_all
    have "valid_tb (NewRational 1 90000)"
      by (simp add: valid_tb_def NewRational_def)
    then have rs: "rescale_to_stream s p = p"
      using tb t q(2) rescale_packet_of_same [of "NewRational 1 90000" "pkt_pts p"]
      by (simp add: rescale_to_stream_def)
    have "\<forall>t\<in>set (take m ts). 0 \<le> t \<and> t \<le> INT64_MAX"
      using rng in_set_takeD by fast
    then have pk: "oc_packets (s_out s) = map packet_of (take m ts)"
      using m(1) written_identity [OF tb] by simp
    have lt: "\<forall>d. oc_last_dts (s_out s) = Some d \<longrightarrow> d < pkt_pts p"
    proof (intro allI impI)
      fix d assume d: "oc_last_dts (s_out s) = Some d"
      from inv have "mux_inv (s_out s)" by (simp add: flow_inv_def)
      with d have ne: "take m ts \<noteq> []" and "d = last (take m ts)"
        using pk by (auto simp: mux_inv_def last_map packet_of_def split: if_splits)
      moreover from ne have "last (take m ts) \<in> set (take m ts)" by simp
      ultimately show "d < pkt_pts p"
        using srt ts sorted_wrt_append_Cons_less by metis
    qed
    from inv have hw: "oc_phase (s_out s) = HeaderWritten"
      by (simp add: flow_inv_def)
    define oc where "oc = (s_out s)\<lparr>oc_packets := oc_packets (s_out s) @ [p], oc_last_dts := Some (pkt_dts p)\<rparr>"
    have dts: "pkt_dts p = pkt_pts p"
      using q(2) by (cases p) (simp add: packet_of_def)
    have wf: "WriteFrame (r_mux env) (rescale_to_stream s p) (s_out s) = (None, oc)"
      using hw lt we rs dts by (auto simp: WriteFrame_def oc_def packet_of_def split: option.splits)
    let ?s1 = "s\<lparr>s_enc := ec, s_out := oc\<rparr>"
    from "1.prems"(1) rp Inr wf have d: "drain env ?s1 = (s', r)"
      by (simp add: drain.simps)
    have flow1: "flow_inv ?s1 ts"
      using flow_inv_write [OF inv rp [unfolded Inr] wf] .
    have tb1: "cc_time_base (s_enc_ctx ?s1) = NewRational 1 90000" "oc_stream_tb (s_out ?s1) = NewRational 1 90000"
      using tb by (simp_all add: oc_def)
    show ?thesis
      using "1.IH" [OF rp [symmetric] Inr wf [symmetric] refl d flow1 srt rng tb1 we] .
  qed
qed

lemma ImageRGBAtoAVFrame_ok:
  "conv_succeeds cenv \<Longrightarrow> 0 < Dx (img_rect img) \<Longrightarrow> 0 < Dy (img_rect img) \<Longrightarrow>
     \<exists>f. fst (ImageRGBAtoAVFrame cenv img) = Inr f"
  by (simp add: ImageRGBAtoAVFrame_def Let_def conv_succeeds_def conv_call_defs)

text \<open>
  The conditions under which one iteration of the loop cannot fail: the library calls
  of the iteration succeed, the image is not empty, the muxer kept the time base, and
  the next timestamp is positive-stepped and fits int64.
\<close>

definition step_ok :: "rec_env \<Rightarrow> image_rgba \<Rightarrow> session \<Rightarrow> bool" where
  "step_ok env img s \<longleftrightarrow> conv_succeeds (r_conv env (s_images s)) \<and>
     0 < Dx (img_rect img) \<and> 0 < Dy (img_rect img) \<and> r_packet_ok env (s_images s) \<and>
     header_tb (r_mux env) = id \<and> (\<forall>i. write_err (r_mux env) i = None) \<and>
     (\<exists>q. s_pts s = word_of_int q \<and> 0 < q \<and> int (Suc (s_images s)) * q \<le> INT64_MAX)"

lemma process_image_inv:
  assumes pi: "process_image env img s = (s', r)" and inv: "loop_inv env s"
  shows "(r = None \<longrightarrow> loop_inv env s') \<and> (r \<noteq> None \<longrightarrow> exit_inv s') \<and>
    (step_ok env img s \<longrightarrow> r = None)"
proof -
  define n where "n = s_images s"
  define T where "T = sent_pts (s_pts s) n"
  obtain cr ctr where conv: "ImageRGBAtoAVFrame (r_conv env n) img = (cr, ctr)"
    by (cases "ImageRGBAtoAVFrame (r_conv env n) img")
  define s1 where "s1 = s\<lparr>s_images := Suc n, s_trace := s_trace s @ map (\<lambda>e. Res (map_res_event (Conv n) e)) ctr\<rparr>"
  have ctr_eq: "snd (ImageRGBAtoAVFrame (r_conv env n) img) = ctr"
    using conv by simp
  have ex1: "exit_inv s1"
    by (rule exit_inv_transfer [OF exit_inv_conv [OF loop_inv_exit_inv [OF inv] ctr_eq, of n]])
       (simp_all add: s1_def)
  have good: "\<exists>q. 0 < q \<and> sent_pts (s_pts s) (Suc n) = map (\<lambda>i. int i * q) [0..<Suc n] \<and>
      int (Suc n) * q \<le> INT64_MAX" if "step_ok env img s"
  proof -
    from that obtain q where q: "s_pts s = word_of_int q" "0 < q" "int (Suc n) * q \<le> INT64_MAX"
      by (auto simp: step_ok_def n_def)
    then show ?thesis
      using sent_pts_exact [of q "Suc n"] by auto
  qed
  show ?thesis
  proof (cases cr)
    case (Inl e)
    with pi conv have r: "s' = push_defer DeferCtxDone s1" "r = Some (ErrConvert e)"
      by (simp_all add: process_image_def Let_def s1_def n_def)
    have "\<not> step_ok env img s"
    proof
      assume "step_ok env img s"
      then have "\<exists>f. fst (ImageRGBAtoAVFrame (r_conv env n) img) = Inr f"
        by (intro ImageRGBAtoAVFrame_ok) (simp_all add: step_ok_def n_def)
      with conv Inl show False by simp
    qed
    with r ex1 show ?thesis
      by (simp add: exit_inv_ctxdone)
  next
    case (Inr frame)
    with conv have ctr: "ctr = [Acquire SrcFrame, Acquire ColoredFrame, Acquire SwsContext, Release SwsContext, Release SrcFrame]"
      using ImageRGBAtoAVFrame_Inr_trace by blast
    define fp where "fp = frame_pts (s_pts s) n"
    from inv have fn: "s_frame_number s = word_of_nat n"
      by (simp add: loop_inv_def n_def)
    have fp': "sint (s_frame_number s * s_pts s) = fp"
      by (simp add: fn fp_def frame_pts_def)
    from inv have run: "enc_opened (s_enc s)" "\<not> enc_draining (s_enc s)"
      "\<not> enc_delay (s_enc s) < length (enc_queue (s_enc s))"
      by (auto simp: loop_inv_def flow_inv_def n_def)
    define bad where "bad = (case enc_last_pts (s_enc s) of None \<Rightarrow> False | Some p \<Rightarrow> fp \<le> p)"
    have pi': "process_image env img s =
      (if bad then (push_defer DeferCtxDone s1, Some (ErrSendFrame ErrEinval))
       else let s2 = s1\<lparr>s_enc := (s_enc s)\<lparr>enc_queue := enc_queue (s_enc s) @ [fp], enc_last_pts := Some fp\<rparr>,
                        s_frame_number := s_frame_number s + 1\<rparr>
            in if \<not> r_packet_ok env n then (push_defer DeferCtxDone s2, Some ErrAllocPacket)
               else drain env (push_defer (DeferFreePacket n) (emit (Res (Acquire (Packet n))) s2)))"
      using conv Inr run fp' by (simp add: process_image_def Let_def s1_def n_def bad_def split: option.splits)
    have nbad: "\<not> bad" if "step_ok env img s"
    proof -
      from good [OF that] obtain q where q: "0 < q" "T @ [fp] = map (\<lambda>i. int i * q) [0..<n] @ [int n * q]"
        by (auto simp: sent_pts_Suc T_def fp_def)
      then have T: "T = map (\<lambda>i. int i * q) [0..<n]" and f: "fp = int n * q"
        by simp_all
      from inv have "enc_last_pts (s_enc s) = (if n = 0 then None else Some (last T))"
        by (simp add: loop_inv_def T_def n_def)
      with T f q(1) show ?thesis
        by (auto simp: bad_def last_map of_nat_diff left_diff_distrib)
    qed
    show ?thesis
    proof (cases bad)
      case True
      with pi pi' have "s' = push_defer DeferCtxDone s1" "r = Some (ErrSendFrame ErrEinval)"
        by auto
      with ex1 nbad True show ?thesis
        by (auto simp: exit_inv_ctxdone)
    next
      case False
      define s2 where "s2 = s1\<lparr>s_enc := (s_enc s)\<lparr>enc_queue := enc_queue (s_enc s) @ [fp], enc_last_pts := Some fp\<rparr>,
                        s_frame_number := s_frame_number s + 1\<rparr>"
      have ex2: "exit_inv s2"
        using ex1 by (simp add: s2_def)
      show ?thesis
      proof (cases "r_packet_ok env n")
        case False
        with pi pi' \<open>\<not> bad\<close> have "s' = push_defer DeferCtxDone s2" "r = Some ErrAllocPacket"
          by (auto simp: s2_def Let_def)
        with ex2 False show ?thesis
          by (auto simp: exit_inv_ctxdone step_ok_def n_def)
      next
        case True
        define s3 where "s3 = push_defer (DeferFreePacket n) (emit (Res (Acquire (Packet n))) s2)"
        from pi pi' \<open>\<not> bad\<close> True have d: "drain env s3 = (s', r)"
          by (simp add: s2_def s3_def Let_def)
        have flow3: "flow_inv s3 (T @ [fp])"
        proof -
          have "flow_inv (s\<lparr>s_enc := (s_enc s)\<lparr>enc_queue := enc_queue (s_enc s) @ [fp], enc_last_pts := Some fp\<rparr>\<rparr>) (T @ [fp])"
            using inv by (intro flow_inv_send) (simp add: loop_inv_def T_def n_def)
          then show ?thesis
            by (subst flow_inv_frame) (simp_all add: s3_def s2_def s1_def)
        qed
        from drain_inv [OF d flow3]
        have dr: "drain_frame s3 s'"
          "r = None \<longrightarrow> flow_inv s' (T @ [fp]) \<and> s_defers s' = s_defers s3 \<and>
             length (enc_queue (s_enc s')) = min (length (enc_queue (s_enc s3))) (enc_delay (s_enc s3))"
          "r \<noteq> None \<longrightarrow> s_defers s' = DeferCtxDone # s_defers s3"
          by blast+
        have ex3: "exit_inv s3"
          using exit_inv_packet [OF ex2] by (simp add: s3_def)
        have "r \<noteq> None \<longrightarrow> exit_inv s'"
          using exit_inv_transfer [OF ex3] dr(1,3) by (simp add: drain_frame_def)
        moreover have "r = None \<longrightarrow> loop_inv env s'"
        proof
          assume "r = None"
          with dr(2) have fl: "flow_inv s' (T @ [fp])" "s_defers s' = s_defers s3"
            "length (enc_queue (s_enc s')) = min (length (enc_queue (s_enc s3))) (enc_delay (s_enc s3))"
            by blast+
          from dr(1) have fr: "s_trace s' = s_trace s3" "s_images s' = Suc n" "s_pts s' = s_pts s"
            "s_frame_number s' = s_frame_number s + 1" "enc_delay (s_enc s') = enc_delay (s_enc s)"
            "enc_last_pts (s_enc s') = Some fp" "s_enc_ctx s' = s_enc_ctx s"
            "oc_stream_tb (s_out s') = oc_stream_tb (s_out s)"
            by (simp_all add: drain_frame_def s3_def s2_def s1_def)
          have pts: "sent_pts (s_pts s') (s_images s') = T @ [fp]"
            using fr(2,3) by (simp add: T_def fp_def sent_pts_Suc)
          have sorted: "sorted_wrt (<) (T @ [fp])"
          proof -
            have "\<forall>x \<in> set T. x < fp"
            proof
              fix x assume x: "x \<in> set T"
              then have "n \<noteq> 0" by (auto simp: T_def sent_pts_def)
              with inv \<open>\<not> bad\<close> have "last T < fp"
                by (auto simp: loop_inv_def bad_def T_def n_def)
              moreover have "x \<le> last T"
                using inv x by (intro sorted_wrt_less_last) (simp_all add: loop_inv_def T_def n_def)
              ultimately show "x < fp" by simp
            qed
            with inv show ?thesis
              by (simp add: sorted_wrt_append loop_inv_def T_def n_def)
          qed
          have len: "length (enc_queue (s_enc s')) = min (Suc n) (r_delay env)"
            using fl(3) inv by (simp add: s3_def s2_def s1_def loop_inv_def n_def)
          have dfr: "s_defers s' = map DeferFreePacket (rev [0..<Suc n]) @ base_defers"
            using fl(2) inv by (simp add: s3_def s2_def s1_def loop_inv_def n_def)
          have tr: "s_trace s' = setup_trace @ concat (map iter_trace [0..<Suc n])"
            using fr(1) inv ctr by (simp add: s3_def s2_def s1_def loop_inv_def n_def iter_trace_def conv_trace_def)
          show "loop_inv env s'"
            unfolding loop_inv_def
            using pts fl(1) sorted fr len dfr tr inv fn
            by (simp add: loop_inv_def n_def)
        qed
        moreover have "step_ok env img s \<longrightarrow> r = None"
        proof
          assume ok: "step_ok env img s"
          from good [OF ok] obtain q where q: "0 < q" "T @ [fp] = map (\<lambda>i. int i * q) [0..<Suc n]"
            "int (Suc n) * q \<le> INT64_MAX"
            by (auto simp: sent_pts_Suc T_def fp_def)
          have srt: "sorted_wrt (<) (T @ [fp])"
            unfolding q(2) by (rule sorted_wrt_less_upt_mult [OF q(1)])
          have rng: "\<forall>t \<in> set (T @ [fp]). 0 \<le> t \<and> t \<le> INT64_MAX"
          proof
            fix t assume "t \<in> set (T @ [fp])"
            then obtain i where i: "i \<in> set [0..<Suc n]" "t = int i * q"
              unfolding q(2) set_map by blast
            have "int i * q \<le> int (Suc n) * q"
              using i(1) q(1) by (intro mult_right_mono) auto
            then have "int i * q \<le> INT64_MAX"
              using q(3) by (rule order_trans)
            with i(2) q(1) show "0 \<le> t \<and> t \<le> INT64_MAX"
              by simp
          qed
          have tb: "cc_time_base (s_enc_ctx s3) = NewRational 1 90000"
            "oc_stream_tb (s_out s3) = NewRational 1 90000"
            using inv ok by (simp_all add: loop_inv_def step_ok_def s3_def s2_def s1_def)
          have "\<forall>i. write_err (r_mux env) i = None"
            using ok by (simp add: step_ok_def)
          with drain_ok [OF d flow3 srt rng tb] show "r = None" .
        qed
        ultimately show ?thesis by blast
      qed
    qed
  qed
qed

lemma drain_exit:
  "drain env s = (s', Some x) \<Longrightarrow> (\<exists>e. x = ErrEncode e) \<or> (\<exists>e. x = ErrWritePacket e)"
proof (induction env s arbitrary: s' rule: drain.induct)
  case (1 env s)
  obtain y ec where rp: "ReceivePacket (s_enc s) = (y, ec)"
    by (cases "ReceivePacket (s_enc s)")
  show ?case
  proof (cases y)
    case (Inl e)
    with "1.prems" rp show ?thesis
      by (subst (asm) drain.simps) (auto split: if_splits)
  next
    case (Inr p)
    obtain w oc where wf: "WriteFrame (r_mux env) (rescale_to_stream s p) (s_out s) = (w, oc)"
      by (cases "WriteFrame (r_mux env) (rescale_to_stream s p) (s_out s)")
    show ?thesis
    proof (cases w)
      case None
      with "1.prems" rp Inr wf have "drain env (s\<lparr>s_enc := ec, s_out := oc\<rparr>) = (s', Some x)"
        by (subst (asm) drain.simps) simp
      then show ?thesis
        using "1.IH" [OF rp [symmetric] Inr wf [symmetric] None] by blast
    next
      case (Some e)
      with "1.prems" rp Inr wf show ?thesis
        by (subst (asm) drain.simps) auto
    qed
  qed
qed

lemma process_image_exit:
  "process_image env img s = (s', Some x) \<Longrightarrow> x \<noteq> Interrupted"
  by (auto simp: process_image_def Let_def split: sum.splits if_splits prod.splits dest: drain_exit)

lemma loop_inv_cancelled:
  "loop_inv env (s\<lparr>s_cancelled := b\<rparr>) = loop_inv env s"
  using flow_inv_frame [of "s\<lparr>s_cancelled := b\<rparr>" s] by (simp add: loop_inv_def)

lemma consume_inv:
  "consume env evs s = (s', r) \<Longrightarrow> loop_inv env s \<Longrightarrow>
     (r = None \<longrightarrow> loop_inv env s') \<and> (r \<noteq> None \<longrightarrow> exit_inv s') \<and>
     (r = Some Interrupted \<longrightarrow> loop_inv env s')"
proof (induction evs arbitrary: s)
  case Nil
  then show ?case by simp
next
  case (Cons ev evs)
  show ?case
  proof (cases ev)
    case EvDone
    with Cons.prems have "s' = s\<lparr>s_cancelled := True\<rparr>" "r = Some Interrupted"
      by simp_all
    with Cons.prems(2) show ?thesis
      by (simp add: loop_inv_cancelled loop_inv_exit_inv)
  next
    case (EvImage img)
    obtain s1 r1 where pi: "process_image env img s = (s1, r1)"
      by (cases "process_image env img s")
    note step = process_image_inv [OF pi Cons.prems(2)]
    show ?thesis
    proof (cases r1)
      case None
      with Cons.prems(1) EvImage pi have "consume env evs s1 = (s', r)" by simp
      with step None show ?thesis by (intro Cons.IH) simp_all
    next
      case (Some x)
      with Cons.prems(1) EvImage pi have "s' = s1" "r = Some x" by simp_all
      moreover have "x \<noteq> Interrupted"
        using pi Some by (simp add: process_image_exit)
      ultimately show ?thesis using step Some by simp
    qed
  qed
qed

end
