(* ===== verification/Scenarios.thy ===== *)
theory Scenarios
  imports Pipeline
begin

text \<open>
  Concrete inputs at which the theorems of the development are instantiated: a
  library that never fails (\<open>env_ok d\<close>, an encoder with a lookahead of \<open>d\<close>
  frames and a muxer that keeps the stream's time base), a 2x2 screenshot, and a
  few failing variants. They are ordinary values, evaluated by \<open>simp\<close> and
  \<open>code_simp\<close>.
\<close>

definition conv_ok :: conv_env where
  "conv_ok = \<lparr>src_buffer_err = None, writable_err = None, from_image_err = None,
     dst_buffer_err = None, sws_create_err = None, scale_err = None\<rparr>"

definition mux_ok :: mux_env where
  "mux_ok = \<lparr>alloc_output_err = None, new_stream_ok = True, params_err = None,
     open_io_err = None, header_err = None, header_tb = id, write_err = (\<lambda>_. None),
     trailer_err = None\<rparr>"

definition env_ok :: "nat \<Rightarrow> rec_env" where
  "env_ok d = \<lparr>r_mux = mux_ok, r_codec = \<lparr>codec_registry = h264_registry, ctx_alloc_ok = True\<rparr>,
     r_open_err = None, r_delay = d, r_conv = (\<lambda>_. conv_ok), r_packet_ok = (\<lambda>_. True)\<rparr>"

definition env_no_io :: rec_env where
  "env_no_io = (env_ok 1)\<lparr>r_mux := mux_ok\<lparr>open_io_err := Some ErrEnomem\<rparr>\<rparr>"

definition img2 :: image_rgba where
  "img2 = \<lparr>img_pix = replicate 16 0, img_stride = 8,
           img_rect = \<lparr>min_x = 0, min_y = 0, max_x = 2, max_y = 2\<rparr>\<rparr>"

definition three_then_sigint :: "cons_event list" where
  "three_then_sigint = [EvImage img2, EvImage img2, EvImage img2, EvDone]"

end
