(* ===== verification/Recording.thy ===== *)
theory Recording
  imports Orchestrator Scenarios
begin

text \<open>
  What one call of StartScreenRecording (screencap.go, lines 63-209) does, from its
  first library call to its return: the deferred calls it runs on each exit, the
  resources left behind, the packets in the file and the frames left in the encoder.
  The proofs combine the setup lemmas and the loop invariants of Orchestrator with
  the way \<open>finish\<close> runs the defer stack.
\<close>

fun release_of :: "deferred \<Rightarrow> event list" where
  "release_of (DeferFreePacket k) = [Res (Release (Packet k))]"
| "release_of _ = []"

definition final_trace :: "rec_env \<Rightarrow> event list" where
  "final_trace env = [Cancel, TrailerWrite (trailer_err (r_mux env)), Res (Release IOCtx),
                      Res (Release CodecCtx), Res (Release OutputCtx)]"

definition free_defer :: "resource \<Rightarrow> deferred" where
  "free_defer r = (case r of OutputCtx \<Rightarrow> DeferFreeOutputCtx | CodecCtx \<Rightarrow> DeferFreeCodecCtx
     | IOCtx \<Rightarrow> DeferFreeIOCtx | Packet k \<Rightarrow> DeferFreePacket k | Conv k c \<Rightarrow> DeferCtxDone)"

definition setup_held :: "resource list list" where
  "setup_held = [[], [OutputCtx], [OutputCtx, CodecCtx], [OutputCtx, CodecCtx, IOCtx]]"

lemma run_defers_append:
  "run_defers env (xs @ ys) s = run_defers env ys (run_defers env xs s)"
  by (induction xs arbitrary: s) auto

lemma run_defers_pre:
  "\<forall>d \<in> set pre. d = DeferCtxDone \<or> (\<exists>k. d = DeferFreePacket k) \<Longrightarrow>
     run_defers env pre s = s\<lparr>s_trace := s_trace s @ concat (map release_of pre)\<rparr>"
  by (induction pre arbitrary: s) (auto simp: emit_def)

lemma run_defers_base:
  "oc_phase (s_out s) = HeaderWritten \<Longrightarrow>
     run_defers env base_defers s =
       s\<lparr>s_out := (s_out s)\<lparr>oc_phase := TrailerWritten\<rparr>, s_cancelled := True,
         s_trace := s_trace s @ final_trace env\<rparr>"
  by (simp add: base_defers_def emit_def WriteTrailer_def final_trace_def)

lemma finish_exit_inv:
  assumes "exit_inv s"
  obtains pre body where
    "fst (finish env s x) = s\<lparr>s_out := (s_out s)\<lparr>oc_phase := TrailerWritten\<rparr>, s_cancelled := True,
        s_defers := [], s_trace := setup_trace @ body @ concat (map release_of pre) @ final_trace env\<rparr>"
    "snd (finish env s x) = Some x"
    "s_trace s = setup_trace @ body" "\<forall>e \<in> set body. body_event e"
    "\<forall>k. Res (Acquire (Packet k)) \<in> set body \<longrightarrow> DeferFreePacket k \<in> set pre"
    "\<forall>d \<in> set pre. d = DeferCtxDone \<or> (\<exists>k. d = DeferFreePacket k)"
    "oc_phase (s_out s) = HeaderWritten" "\<not> oc_misuse (s_out s)" "leak_ok body"
proof -
  from assms obtain pre body where p: "oc_phase (s_out s) = HeaderWritten" "\<not> oc_misuse (s_out s)"
    "s_defers s = pre @ base_defers" "s_trace s = setup_trace @ body"
    "\<forall>d \<in> set pre. d = DeferCtxDone \<or> (\<exists>k. d = DeferFreePacket k)"
    "\<forall>e \<in> set body. body_event e"
    "\<forall>k. Res (Acquire (Packet k)) \<in> set body \<longrightarrow> DeferFreePacket k \<in> set pre" "leak_ok body"
    by (rule exit_invE)
  have "fst (finish env s x) = s\<lparr>s_out := (s_out s)\<lparr>oc_phase := TrailerWritten\<rparr>, s_cancelled := True,
        s_defers := [], s_trace := setup_trace @ body @ concat (map release_of pre) @ final_trace env\<rparr>"
    using p by (simp add: finish_def run_defers_append run_defers_pre run_defers_base)
  moreover have "snd (finish env s x) = Some x" by (simp add: finish_def)
  ultimately show ?thesis using p that by blast
qed

lemma setup_recording_Inr:
  assumes "setup_recording env f w h fps = Inr (s, x)"
  shows "oc_phase (s_out s) = Unopened \<and> \<not> oc_misuse (s_out s) \<and>
    (\<exists>rs \<in> set setup_held. s_trace s = map (\<lambda>r. Res (Acquire r)) rs \<and>
       s_defers s = rev (map free_defer rs))"
  using assms
  by (auto simp: setup_recording_def setup_held_def free_defer_def setup_calls_defs
      NewH264EncoderCodec_def Let_def emit_def push_defer_def
      split: sum.splits option.splits if_splits prod.splits)

lemma run_defers_held:
  "rs \<in> set setup_held \<Longrightarrow>
     run_defers env (rev (map free_defer rs)) s = s\<lparr>s_trace := s_trace s @ map (\<lambda>r. Res (Release r)) (rev rs)\<rparr>"
  by (auto simp: setup_held_def free_defer_def emit_def)



lemma drain_keeps:
  "s_pts (fst (drain env s)) = s_pts s \<and> s_images (fst (drain env s)) = s_images s"
proof (induction env s rule: drain.induct)
  case (1 env s)
  show ?case
    using "1.IH"
    by (subst (1 2) drain.simps) (auto simp: push_defer_def split: prod.splits sum.splits option.splits)
qed

lemma process_image_keeps:
  "s_pts (fst (process_image env img s)) = s_pts s \<and>
   s_images (fst (process_image env img s)) = Suc (s_images s)"
  by (auto simp: process_image_def Let_def drain_keeps split: prod.splits sum.splits)

lemma consume_pts:
  "s_pts (fst (consume env evs s)) = s_pts s"
proof (induction evs arbitrary: s)
  case (Cons ev evs)
  show ?case
  proof (cases ev)
    case (EvImage img)
    obtain s1 r1 where pi: "process_image env img s = (s1, r1)"
      by (cases "process_image env img s")
    have "s_pts s1 = s_pts s"
      using process_image_keeps [of env img s] pi by simp
    with Cons.IH [of s1] pi EvImage show ?thesis
      by (cases r1) simp_all
  qed simp
qed simp

lemma loop_inv_start:
  assumes "setup_recording env f w h fps = Inl s0"
  shows "loop_inv env (s0\<lparr>s_pts := inc, s_frame_number := 0\<rparr>)"
proof -
  note st = setup_recording_Inl [OF assms]
  have "flow_inv (s0\<lparr>s_pts := inc, s_frame_number := 0\<rparr>) []"
    using st by (auto simp: flow_inv_def mux_inv_def written_def encoder_init_def)
  then show ?thesis
    using st by (simp add: loop_inv_def sent_pts_def encoder_init_def)
qed

lemma StartScreenRecording_exit:
  assumes "StartScreenRecording env f w h fps evs = (s, Some x)"
  shows "(\<exists>s0. setup_recording env f w h fps = Inr (s0, x) \<and> s = fst (finish env s0 x)) \<or>
    (\<exists>sl. exit_inv sl \<and> s = fst (finish env sl x) \<and>
       (x = Interrupted \<longrightarrow> loop_inv env sl \<and> pts_increment fps = Inr (s_pts sl)))"
proof (cases "setup_recording env f w h fps")
  case (Inr a)
  with assms show ?thesis
    by (cases a) (auto simp: StartScreenRecording_def finish_def)
next
  case (Inl s0)
  note st = loop_inv_start [OF Inl]
  show ?thesis
  proof (cases "pts_increment fps")
    case (Inl p)
    have "exit_inv s0"
      using loop_inv_exit_inv [OF st [of 0]] by simp
    with assms \<open>setup_recording env f w h fps = Inl s0\<close> Inl show ?thesis
      by (auto simp: StartScreenRecording_def finish_def)
  next
    case (Inr inc)
    let ?s = "s0\<lparr>s_pts := inc, s_frame_number := 0\<rparr>"
    obtain sl r where c: "consume env evs ?s = (sl, r)"
      by (cases "consume env evs ?s")
    with assms \<open>setup_recording env f w h fps = Inl s0\<close> Inr have r: "r = Some x" "s = fst (finish env sl x)"
      by (auto simp: StartScreenRecording_def finish_def split: option.splits)
    note ci = consume_inv [OF c st]
    have "s_pts sl = inc"
      using consume_pts [of env evs ?s] c by simp
    with ci r Inr show ?thesis
      by auto
  qed
qed

lemma set_res_events [simp]:
  "x \<in> set (res_events es) \<longleftrightarrow> Res x \<in> set es"
  by (induction es rule: res_events.induct) auto

lemma release_of_not [simp]:
  "TrailerWrite e \<notin> set (release_of d)" "Cancel \<notin> set (release_of d)"
  "HeaderWrite \<notin> set (release_of d)" "Res (Acquire r) \<notin> set (release_of d)"
  by (cases d; simp)+

lemma acquired_release_of [simp]:
  "acquired (res_events (concat (map release_of pre))) = {}"
  by (auto simp: acquired_def)

lemma release_of_packets:
  "concat (map (release_of \<circ> DeferFreePacket) xs) = map (\<lambda>k. Res (Release (Packet k))) xs"
  by (induction xs) auto

lemma release_of_packet:
  "DeferFreePacket k \<in> set pre \<Longrightarrow> Res (Release (Packet k)) \<in> set (concat (map release_of pre))"
  by (induction pre) auto

lemma finish_setup:
  assumes "setup_recording env f w h fps = Inr (s0, x)"
  obtains rs where "rs \<in> set setup_held"
    "s_trace (fst (finish env s0 x)) = map (\<lambda>r. Res (Acquire r)) rs @ map (\<lambda>r. Res (Release r)) (rev rs)"
    "oc_phase (s_out (fst (finish env s0 x))) = Unopened" "\<not> oc_misuse (s_out (fst (finish env s0 x)))"
proof -
  from setup_recording_Inr [OF assms] obtain rs where "rs \<in> set setup_held"
    "s_trace s0 = map (\<lambda>r. Res (Acquire r)) rs" "s_defers s0 = rev (map free_defer rs)"
    "oc_phase (s_out s0) = Unopened" "\<not> oc_misuse (s_out s0)"
    by blast
  with that show ?thesis
    by (simp add: finish_def run_defers_held)
qed

lemma finish_loop_inv:
  assumes "loop_inv env s"
  shows "fst (finish env s x) = s\<lparr>s_out := (s_out s)\<lparr>oc_phase := TrailerWritten\<rparr>, s_cancelled := True,
     s_defers := [], s_trace := s_trace s @ map (\<lambda>k. Res (Release (Packet k))) (rev [0..<s_images s]) @ final_trace env\<rparr>"
proof -
  let ?pre = "map DeferFreePacket (rev [0..<s_images s])"
  from assms have "s_defers s = ?pre @ base_defers" "oc_phase (s_out s) = HeaderWritten"
    by (simp_all add: loop_inv_def flow_inv_def)
  then show ?thesis
    by (simp add: finish_def run_defers_append run_defers_pre run_defers_base release_of_packets)
qed

lemma take_drop_length:
  "length (drop m xs) = l \<Longrightarrow> take m xs = take (length xs - l) xs \<and> drop m xs = drop (length xs - l) xs"
  by (cases "m \<le> length xs") auto

lemma loop_inv_packets:
  assumes "loop_inv env s"
  defines "k \<equiv> s_images s - min (s_images s) (r_delay env)"
  shows "oc_packets (s_out s) = written s (take k (sent_pts (s_pts s) (s_images s))) \<and>
    enc_queue (s_enc s) = drop k (sent_pts (s_pts s) (s_images s))"
proof -
  let ?T = "sent_pts (s_pts s) (s_images s)"
  from assms(1) obtain m where m: "oc_packets (s_out s) = written s (take m ?T)" "enc_queue (s_enc s) = drop m ?T"
    by (auto simp: loop_inv_def flow_inv_def)
  moreover from assms(1) m(2) have "length (drop m ?T) = min (s_images s) (r_delay env)"
    by (simp add: loop_inv_def)
  ultimately show ?thesis
    using take_drop_length [of m ?T] by (simp add: k_def sent_pts_def)
qed

lemma setup_recording_reason:
  "setup_recording env f w h fps = Inr (s, x) \<Longrightarrow> x \<noteq> Interrupted"
  by (auto simp: setup_recording_def Let_def split: sum.splits option.splits prod.splits)

lemma StartScreenRecording_interrupted:
  assumes "StartScreenRecording env f w h fps evs = (s, Some Interrupted)"
  obtains sl where "loop_inv env sl" "pts_increment fps = Inr (s_pts sl)"
    "s = sl\<lparr>s_out := (s_out sl)\<lparr>oc_phase := TrailerWritten\<rparr>, s_cancelled := True, s_defers := [],
       s_trace := s_trace sl @ map (\<lambda>k. Res (Release (Packet k))) (rev [0..<s_images sl]) @ final_trace env\<rparr>"
  using StartScreenRecording_exit [OF assms] setup_recording_reason finish_loop_inv by blast

lemma iter_trace_acquired_released:
  "acquired (res_events (concat (map iter_trace [0..<n]))) =
     (\<Union>k < n. {Conv k SrcFrame, Conv k ColoredFrame, Conv k SwsContext, Packet k})"
  "released (res_events (concat (map iter_trace [0..<n]))) = (\<Union>k < n. {Conv k SrcFrame, Conv k SwsContext})"
  by (induction n) (auto simp: iter_trace_def conv_trace_def lessThan_Suc)

lemma setup_recording_ok:
  assumes "setup_ok env"
  obtains s where "setup_recording env f w h fps = Inl s"
proof -
  from assms obtain c where c: "FindEncoder (codec_registry (r_codec env)) CodecIDH264 = Some c"
    by (auto simp: setup_ok_def)
  show ?thesis
    using assms c that
    by (auto simp: setup_recording_def setup_ok_def setup_calls_defs NewH264EncoderCodec_def
        AllocCodecContext_def NewRational_def valid_tb_def Let_def emit_def push_defer_def)
qed

lemma run_defers_images:
  "s_images (run_defers env ds s) = s_images s \<and> s_pts (run_defers env ds s) = s_pts s"
proof (induction ds arbitrary: s)
  case (Cons d ds)
  then show ?case
    by (cases d) (simp_all add: emit_def split: prod.splits)
qed simp

lemma loop_inv_zero_pts:
  assumes "loop_inv env s" "s_pts s = 0"
  shows "s_images s \<le> 1"
proof -
  have "frame_pts 0 = (\<lambda>_. 0)"
    by (simp add: fun_eq_iff frame_pts_def)
  then have "sent_pts 0 n = replicate n 0" for n
    by (simp add: sent_pts_def map_replicate_const)
  with assms have "sorted_wrt (<) (replicate (s_images s) (0::int))"
    by (simp add: loop_inv_def)
  then show ?thesis
    by (cases "s_images s") auto
qed

lemma consume_images_bound:
  "loop_inv env s \<Longrightarrow> s_pts s = 0 \<Longrightarrow> s_images (fst (consume env evs s)) \<le> 2"
proof (induction evs arbitrary: s)
  case Nil
  then show ?case using loop_inv_zero_pts by fastforce
next
  case (Cons ev evs)
  show ?case
  proof (cases ev)
    case EvDone
    with Cons.prems loop_inv_zero_pts show ?thesis by fastforce
  next
    case (EvImage img)
    obtain s1 r1 where pi: "process_image env img s = (s1, r1)"
      by (cases "process_image env img s")
    have k: "s_pts s1 = 0" "s_images s1 = Suc (s_images s)"
      using process_image_keeps [of env img s] pi Cons.prems(2) by simp_all
    have "s_images s \<le> 1"
      using Cons.prems by (rule loop_inv_zero_pts)
    moreover have "r1 = None \<Longrightarrow> loop_inv env s1"
      using process_image_inv [OF pi Cons.prems(1)] by simp
    ultimately show ?thesis
      using Cons.IH [of s1] pi k EvImage by (cases r1) simp_all
  qed
qed

lemma setup_recording_images:
  "setup_recording env f w h fps = Inr (s, x) \<Longrightarrow> s_images s = 0"
  by (auto simp: setup_recording_def session_init_def Let_def emit_def push_defer_def
      split: sum.splits option.splits prod.splits)

lemma consume_snoc:
  "consume env evs s0 = (s, None) \<Longrightarrow> consume env (evs @ [ev]) s0 = consume env [ev] s"
proof (induction evs arbitrary: s0)
  case (Cons e evs)
  then show ?case
    by (cases e) (auto split: prod.splits option.splits)
qed simp

lemma consume_images_ok:
  assumes "loop_inv env s" "s_pts s = word_of_int q" "0 < q"
    "int (s_images s + length imgs) * q \<le> INT64_MAX"
    "\<forall>k. conv_succeeds (r_conv env k) \<and> r_packet_ok env k"
    "\<forall>img \<in> set imgs. 0 < Dx (img_rect img) \<and> 0 < Dy (img_rect img)"
    "header_tb (r_mux env) = id" "\<forall>i. write_err (r_mux env) i = None"
  shows "\<exists>s'. consume env (map EvImage imgs) s = (s', None) \<and> loop_inv env s' \<and>
    s_images s' = s_images s + length imgs \<and> s_pts s' = s_pts s"
  using assms
proof (induction imgs arbitrary: s)
  case (Cons img imgs)
  obtain s1 r1 where pi: "process_image env img s = (s1, r1)"
    by (cases "process_image env img s")
  have "int (Suc (s_images s)) * q \<le> int (s_images s + length (img # imgs)) * q"
    using Cons.prems(3) by (intro mult_right_mono) simp_all
  then have "int (Suc (s_images s)) * q \<le> INT64_MAX"
    using Cons.prems(4) by (rule order_trans)
  with Cons.prems have ok: "step_ok env img s"
    by (auto simp: step_ok_def)
  with process_image_inv [OF pi Cons.prems(1)] have r1: "r1 = None" "loop_inv env s1"
    by simp_all
  have k: "s_pts s1 = s_pts s" "s_images s1 = Suc (s_images s)"
    using process_image_keeps [of env img s] pi by simp_all
  have "\<exists>s'. consume env (map EvImage imgs) s1 = (s', None) \<and> loop_inv env s' \<and>
      s_images s' = s_images s1 + length imgs \<and> s_pts s' = s_pts s1"
    using Cons.prems k r1(2) by (intro Cons.IH) simp_all
  with pi r1(1) k show ?case
    by simp
qed simp

section \<open>Properties of a recording run\<close>

text \<open>
  C1: whenever a recording returns after its header was written (on an interrupt, on
  an error inside the loop, or on the panic of the pts computation), its deferred calls
  have cancelled the signal context and written the trailer exactly once, at the end of
  the run, followed only by the frees of the I/O, codec and output contexts; no call
  ever misused the container.
\<close>

theorem StartScreenRecording_finalizes:
  assumes "StartScreenRecording env f w h fps evs = (s, Some x)" "HeaderWrite \<in> set (s_trace s)"
  shows "oc_phase (s_out s) = TrailerWritten \<and> \<not> oc_misuse (s_out s) \<and> s_cancelled s \<and>
    (\<exists>pre. s_trace s = pre @ final_trace env \<and> (\<forall>e. TrailerWrite e \<notin> set pre) \<and> Cancel \<notin> set pre)"
  using StartScreenRecording_exit [OF assms(1)]
proof (elim disjE exE conjE)
  fix s0 assume "setup_recording env f w h fps = Inr (s0, x)" "s = fst (finish env s0 x)"
  then show ?thesis
    using assms(2) by (elim finish_setup) auto
next
  fix sl assume ex: "exit_inv sl" and s: "s = fst (finish env sl x)"
  obtain pre body where "fst (finish env sl x) = sl\<lparr>s_out := (s_out sl)\<lparr>oc_phase := TrailerWritten\<rparr>,
      s_cancelled := True, s_defers := [], s_trace := setup_trace @ body @ concat (map release_of pre) @ final_trace env\<rparr>"
    "\<forall>e \<in> set body. body_event e" "\<not> oc_misuse (s_out sl)"
    by (rule finish_exit_inv [OF ex]) blast
  with s show ?thesis
    by (auto simp: setup_trace_def body_event_def)
qed

text \<open>
  C8: a recording that returns before its header is written releases exactly what
  it acquired, in the reverse order, writes no trailer and leaves the container
  unopened and unmisused; nothing is leaked.
\<close>

theorem StartScreenRecording_setup_failure:
  assumes "StartScreenRecording env f w h fps evs = (s, Some x)" "HeaderWrite \<notin> set (s_trace s)"
  shows "(\<exists>rs. s_trace s = map (\<lambda>r. Res (Acquire r)) rs @ map (\<lambda>r. Res (Release r)) (rev rs)) \<and>
    oc_phase (s_out s) = Unopened \<and> \<not> oc_misuse (s_out s) \<and> leaked (res_events (s_trace s)) = {}"
  using StartScreenRecording_exit [OF assms(1)]
proof (elim disjE exE conjE)
  fix s0 assume "setup_recording env f w h fps = Inr (s0, x)" "s = fst (finish env s0 x)"
  then show ?thesis
    by (elim finish_setup) (auto simp: leaked_def)
next
  fix sl assume ex: "exit_inv sl" and s: "s = fst (finish env sl x)"
  obtain pre body where "fst (finish env sl x) = sl\<lparr>s_out := (s_out sl)\<lparr>oc_phase := TrailerWritten\<rparr>,
      s_cancelled := True, s_defers := [], s_trace := setup_trace @ body @ concat (map release_of pre) @ final_trace env\<rparr>"
    by (rule finish_exit_inv [OF ex]) blast
  with s assms(2) show ?thesis
    by (simp add: setup_trace_def)
qed

text \<open>
  C5: on every return of a recording, the only resources acquired and never released
  are converted frames: the output, codec and I/O contexts, every packet, every
  intermediate RGBA frame and every scale context are released by a deferred call.
\<close>

theorem StartScreenRecording_leaks_only_colored:
  assumes "StartScreenRecording env f w h fps evs = (s, Some x)"
  shows "leaked (res_events (s_trace s)) \<subseteq> range (\<lambda>k. Conv k ColoredFrame)"
  using StartScreenRecording_exit [OF assms(1)]
proof (elim disjE exE conjE)
  fix s0 assume "setup_recording env f w h fps = Inr (s0, x)" "s = fst (finish env s0 x)"
  then show ?thesis
    by (elim finish_setup) (auto simp: leaked_def)
next
  fix sl assume ex: "exit_inv sl" and s: "s = fst (finish env sl x)"
  obtain pre body where f: "fst (finish env sl x) = sl\<lparr>s_out := (s_out sl)\<lparr>oc_phase := TrailerWritten\<rparr>,
      s_cancelled := True, s_defers := [], s_trace := setup_trace @ body @ concat (map release_of pre) @ final_trace env\<rparr>"
    and pk: "\<forall>k. Res (Acquire (Packet k)) \<in> set body \<longrightarrow> DeferFreePacket k \<in> set pre"
    and lk: "leak_ok body"
    by (rule finish_exit_inv [OF ex]) blast
  show ?thesis
  proof
    fix r assume r: "r \<in> leaked (res_events (s_trace s))"
    with s f have "r \<in> leaked (res_events body)"
      by (auto simp: leaked_def setup_trace_def final_trace_def)
    moreover have "r \<notin> range Packet"
    proof
      assume "r \<in> range Packet"
      then obtain k where "r = Packet k" by blast
      with r s f have "Res (Acquire (Packet k)) \<in> set body"
        "Packet k \<notin> released (res_events (concat (map release_of pre)))"
        by (auto simp: leaked_def setup_trace_def final_trace_def acquired_def)
      moreover from this(1) pk have "Res (Release (Packet k)) \<in> set (concat (map release_of pre))"
        by (intro release_of_packet) blast
      ultimately show False
        by (simp add: released_def)
    qed
    ultimately show "r \<in> range (\<lambda>k. Conv k ColoredFrame)"
      using lk by (auto simp: leak_ok_def)
  qed
qed

text \<open>
  C4: after an interrupt, the encoder still holds the last \<open>min n delay\<close> of the
  \<open>n\<close> frames sent and was never asked to drain: the code never calls
  \<open>SendFrame(nil)\<close>, so these frames never reach the file.
\<close>

theorem StartScreenRecording_interrupted_tail:
  assumes "StartScreenRecording env f w h fps evs = (s, Some Interrupted)"
  shows "length (oc_packets (s_out s)) = s_images s - min (s_images s) (r_delay env) \<and>
    enc_queue (s_enc s) = drop (s_images s - min (s_images s) (r_delay env)) (sent_pts (s_pts s) (s_images s)) \<and>
    \<not> enc_draining (s_enc s)"
proof -
  obtain sl where l: "loop_inv env sl" and s: "s = sl\<lparr>s_out := (s_out sl)\<lparr>oc_phase := TrailerWritten\<rparr>,
      s_cancelled := True, s_defers := [],
      s_trace := s_trace sl @ map (\<lambda>k. Res (Release (Packet k))) (rev [0..<s_images sl]) @ final_trace env\<rparr>"
    by (rule StartScreenRecording_interrupted [OF assms])
  from l have "\<not> enc_draining (s_enc sl)"
    by (simp add: loop_inv_def flow_inv_def)
  with loop_inv_packets [OF l] s show ?thesis
    by (simp add: written_def sent_pts_def)
qed

text \<open>
  C11: after an interrupt, the resources leaked are exactly the converted frames,
  one per image consumed.
\<close>

theorem StartScreenRecording_interrupted_leak:
  assumes "StartScreenRecording env f w h fps evs = (s, Some Interrupted)"
  shows "leaked (res_events (s_trace s)) = (\<lambda>k. Conv k ColoredFrame) ` {..<s_images s}"
proof -
  obtain sl where l: "loop_inv env sl" and s: "s = sl\<lparr>s_out := (s_out sl)\<lparr>oc_phase := TrailerWritten\<rparr>,
      s_cancelled := True, s_defers := [],
      s_trace := s_trace sl @ map (\<lambda>k. Res (Release (Packet k))) (rev [0..<s_images sl]) @ final_trace env\<rparr>"
    by (rule StartScreenRecording_interrupted [OF assms])
  from l have "s_trace sl = setup_trace @ concat (map iter_trace [0..<s_images sl])"
    by (simp add: loop_inv_def)
  with s show ?thesis
    by (auto simp: leaked_def iter_trace_acquired_released setup_trace_def final_trace_def)
qed

text \<open>
  C2: after an interrupt, when the muxer keeps the 1/90000 time base and no
  timestamp overflows int64, the file holds exactly the first \<open>n - min n delay\<close>
  of the \<open>n\<close> frames consumed, frame \<open>i\<close> with pts = dts = \<open>i * (90000 div fps)\<close>,
  and the pts increment is \<open>90000 div fps\<close>.
\<close>

theorem StartScreenRecording_packet_timestamps:
  assumes "StartScreenRecording env f w h fps evs = (s, Some Interrupted)"
    "header_tb (r_mux env) = id" "0 < fps" "int (s_images s) * (90000 div fps) \<le> INT64_MAX"
  shows "s_pts s = word_of_int (90000 div fps) \<and>
    oc_packets (s_out s) =
      map (\<lambda>i. packet_of (int i * (90000 div fps))) [0..<s_images s - min (s_images s) (r_delay env)]"
proof -
  let ?q = "90000 div fps"
  obtain sl where l: "loop_inv env sl" and inc: "pts_increment fps = Inr (s_pts sl)"
    and s: "s = sl\<lparr>s_out := (s_out sl)\<lparr>oc_phase := TrailerWritten\<rparr>,
      s_cancelled := True, s_defers := [],
      s_trace := s_trace sl @ map (\<lambda>k. Res (Release (Packet k))) (rev [0..<s_images sl]) @ final_trace env\<rparr>"
    by (rule StartScreenRecording_interrupted [OF assms(1)])
  let ?n = "s_images sl"
  let ?k = "?n - min ?n (r_delay env)"
  from inc assms(3) have pts: "s_pts sl = word_of_int ?q"
    by (simp add: pts_increment_def)
  have q: "0 \<le> ?q"
    using assms(3) by (simp add: pos_imp_zdiv_nonneg_iff)
  have T: "sent_pts (s_pts sl) ?n = map (\<lambda>i. int i * ?q) [0..<?n]"
    using pts q assms(4) s by (simp add: sent_pts_exact)
  have tb: "cc_time_base (s_enc_ctx sl) = NewRational 1 90000" "oc_stream_tb (s_out sl) = NewRational 1 90000"
    using l assms(2) by (simp_all add: loop_inv_def)
  have "rescale_to_stream sl (packet_of (int i * ?q)) = packet_of (int i * ?q)" if "i < ?k" for i
  proof -
    from that q have "int i * ?q \<le> int ?n * ?q"
      by (simp add: mult_right_mono)
    with assms(4) s q have "0 \<le> int i * ?q" "int i * ?q \<le> INT64_MAX"
      by simp_all
    then show ?thesis
      using tb by (simp add: rescale_to_stream_def rescale_packet_of_same valid_tb_def NewRational_def)
  qed
  then have "written sl (take ?k (sent_pts (s_pts sl) ?n)) = map (\<lambda>i. packet_of (int i * ?q)) [0..<?k]"
    by (simp add: T written_def take_map)
  with loop_inv_packets [OF l] pts s show ?thesis
    by simp
qed

text \<open>
  C18: \<open>pts\<close> and \<open>frameNumber\<close> are int64 and their product is computed in int64
  (line 165): once \<open>frameNumber * pts\<close> passes \<open>INT64_MAX\<close> the product wraps to a
  negative timestamp, which the encoder refuses after the earlier non-negative ones,
  and the recording stops with a send error.
\<close>

theorem process_image_pts_wrap:
  assumes conv: "fst (ImageRGBAtoAVFrame (r_conv env (s_images s)) img) = Inr fr"
    and enc: "enc_opened (s_enc s)" "\<not> enc_draining (s_enc s)"
      "length (enc_queue (s_enc s)) \<le> enc_delay (s_enc s)" "enc_last_pts (s_enc s) = Some lp" "0 \<le> lp"
    and pts: "s_pts s = word_of_int q" "0 \<le> q"
      "INT64_MAX < uint (s_frame_number s) * q" "uint (s_frame_number s) * q < 2 ^ 64"
  shows "sint (s_frame_number s * s_pts s) = uint (s_frame_number s) * q - 2 ^ 64 \<and>
    sint (s_frame_number s * s_pts s) < 0 \<and>
    snd (process_image env img s) = Some (ErrSendFrame ErrEinval)"
proof -
  have w: "sint (s_frame_number s * s_pts s) = uint (s_frame_number s) * q - 2 ^ 64"
    using sint_mult_wrap [OF pts(2,3,4)] pts(1) by simp
  then have neg: "sint (s_frame_number s * s_pts s) < 0"
    using pts(4) by simp
  obtain ctr where c: "ImageRGBAtoAVFrame (r_conv env (s_images s)) img = (Inr fr, ctr)"
    using conv by (cases "ImageRGBAtoAVFrame (r_conv env (s_images s)) img") simp
  have "SendFrame (Some (fr\<lparr>fr_pts := sint (s_frame_number s * s_pts s)\<rparr>)) (s_enc s) = Inl ErrEinval"
    using enc neg by simp
  with c w neg show ?thesis
    by (simp add: process_image_def Let_def)
qed

text \<open>
  C16: with \<open>fps > 90000\<close> the pts increment \<open>90000 / fps\<close> is 0, every frame gets
  pts 0, and the encoder refuses the second one: whatever the screenshots and
  events, a recording consumes at most two images, and one that is still waiting in
  its select loop has consumed at most one.
\<close>

theorem StartScreenRecording_fps_above_90000:
  assumes "90000 < fps" "StartScreenRecording env f w h fps evs = (s, r)"
  shows "s_images s \<le> 2 \<and> (r = None \<longrightarrow> s_images s \<le> 1)"
proof (cases "setup_recording env f w h fps")
  case (Inr a)
  then obtain s0 x where "setup_recording env f w h fps = Inr (s0, x)" by (cases a) blast
  moreover from this have "s_images s0 = 0" by (rule setup_recording_images)
  ultimately show ?thesis
    using assms(2) run_defers_images [of env "s_defers s0" "s0\<lparr>s_defers := []\<rparr>"]
    by (auto simp: StartScreenRecording_def finish_def)
next
  case (Inl s0)
  have q: "90000 div fps = 0"
    using assms(1) by simp
  have p: "pts_increment fps = Inr 0"
    using assms(1) q by (simp add: pts_increment_def)
  let ?s = "s0\<lparr>s_pts := 0, s_frame_number := 0\<rparr>"
  have l: "loop_inv env ?s" by (rule loop_inv_start [OF Inl])
  obtain sl r' where c: "consume env evs ?s = (sl, r')"
    by (cases "consume env evs ?s")
  have b: "s_images sl \<le> 2"
    using consume_images_bound [OF l, of evs] c by simp
  show ?thesis
  proof (cases r')
    case None
    with assms(2) Inl p c have "s = sl" "r = None"
      by (simp_all add: StartScreenRecording_def)
    moreover have "loop_inv env sl" "s_pts sl = 0"
      using consume_inv [OF c l] None consume_pts [of env evs ?s] c by simp_all
    ultimately show ?thesis
      using loop_inv_zero_pts [of env sl] by simp
  next
    case (Some x)
    with assms(2) Inl p c have "s = fst (finish env sl x)" "r = Some x"
      by (simp_all add: StartScreenRecording_def finish_def)
    with b run_defers_images [of env "s_defers sl" "sl\<lparr>s_defers := []\<rparr>"] show ?thesis
      by (simp add: finish_def)
  qed
qed

text \<open>
  C17: the encoder of every recording that gets past its set-up has bit rate 0: the
  code passes \<open>outputCtx.BitRate()\<close> of a fresh output context (line 75), which
  replaces the codec context's default of 200000.
\<close>

theorem setup_recording_bit_rate:
  assumes "setup_recording env f w h fps = Inl s"
  shows "cc_bit_rate (s_enc_ctx s) = 0 \<and> cc_bit_rate (AllocCodecContext (cc_codec (s_enc_ctx s))) = 200000"
  using setup_recording_Inl [OF assms] by (simp add: AllocCodecContext_def)

text \<open>
  C3: with a library that never fails, a muxer that keeps the time base, non-empty
  screenshots and \<open>0 < fps \<le> 90000\<close> (without int64 overflow), the recording
  consumes every image it receives and is still running after them; only the
  interrupt ends it, after exactly those images.
\<close>

theorem StartScreenRecording_runs_until_interrupt:
  assumes "setup_ok env" "header_tb (r_mux env) = id" "\<forall>i. write_err (r_mux env) i = None"
    "\<forall>k. conv_succeeds (r_conv env k) \<and> r_packet_ok env k" "0 < fps" "fps \<le> 90000"
    "int (length imgs) * (90000 div fps) \<le> INT64_MAX"
    "\<forall>img \<in> set imgs. 0 < Dx (img_rect img) \<and> 0 < Dy (img_rect img)"
  shows "snd (StartScreenRecording env f wd ht fps (map EvImage imgs)) = None \<and>
    snd (StartScreenRecording env f wd ht fps (map EvImage imgs @ [EvDone])) = Some Interrupted \<and>
    s_images (fst (StartScreenRecording env f wd ht fps (map EvImage imgs @ [EvDone]))) = length imgs"
proof -
  obtain s0 where s0: "setup_recording env f wd ht fps = Inl s0"
    using setup_recording_ok [OF assms(1)] by blast
  let ?q = "90000 div fps"
  have q: "0 < ?q"
    using assms(5,6) by (simp add: pos_imp_zdiv_pos_iff)
  have p: "pts_increment fps = Inr (word_of_int ?q)"
    using assms(5) by (simp add: pts_increment_def)
  let ?s = "s0\<lparr>s_pts := word_of_int ?q, s_frame_number := 0\<rparr>"
  have l: "loop_inv env ?s"
    by (rule loop_inv_start [OF s0])
  have n0: "s_images ?s = 0"
    using setup_recording_Inl [OF s0] by simp
  obtain s' where c: "consume env (map EvImage imgs) ?s = (s', None)" "s_images s' = length imgs"
    using consume_images_ok [OF l _ q _ assms(4,8,2,3)] n0 assms(7) by fastforce
  have c2: "consume env (map EvImage imgs @ [EvDone]) ?s = (s'\<lparr>s_cancelled := True\<rparr>, Some Interrupted)"
    by (simp add: consume_snoc [OF c(1)])
  show ?thesis
    using s0 p c c2 run_defers_images [of env "s_defers s'" "s'\<lparr>s_cancelled := True, s_defers := []\<rparr>"]
    by (simp add: StartScreenRecording_def finish_def)
qed

section \<open>The properties at a concrete run\<close>

text \<open>
  Three screenshots, then an interrupt, with an encoder of lookahead 1 and a library
  that never fails: the file gets frames 0 and 1, frame 2 stays in the encoder.
\<close>

lemma StartScreenRecording_finalizes_witness:
  "StartScreenRecording (env_ok 1) ''output.mp4'' 2 2 30 three_then_sigint =
     (fst (StartScreenRecording (env_ok 1) ''output.mp4'' 2 2 30 three_then_sigint), Some Interrupted) \<and>
   HeaderWrite \<in> set (s_trace (fst (StartScreenRecording (env_ok 1) ''output.mp4'' 2 2 30 three_then_sigint))) \<and>
   oc_phase (s_out (fst (StartScreenRecording (env_ok 1) ''output.mp4'' 2 2 30 three_then_sigint))) = TrailerWritten"
proof -
  let ?r = "StartScreenRecording (env_ok 1) ''output.mp4'' 2 2 30 three_then_sigint"
  have x: "snd ?r = Some Interrupted" by code_simp
  have h: "HeaderWrite \<in> set (s_trace (fst ?r))" by code_simp
  have r: "?r = (fst ?r, Some Interrupted)" using x by (cases ?r) simp
  show ?thesis using StartScreenRecording_finalizes [OF r h] r h by blast
qed

lemma StartScreenRecording_setup_failure_witness:
  "StartScreenRecording env_no_io ''output.mp4'' 2 2 30 three_then_sigint =
     (fst (StartScreenRecording env_no_io ''output.mp4'' 2 2 30 three_then_sigint), Some (ErrOpenIO ErrEnomem)) \<and>
   HeaderWrite \<notin> set (s_trace (fst (StartScreenRecording env_no_io ''output.mp4'' 2 2 30 three_then_sigint))) \<and>
   leaked (res_events (s_trace (fst (StartScreenRecording env_no_io ''output.mp4'' 2 2 30 three_then_sigint)))) = {}"
proof -
  let ?r = "StartScreenRecording env_no_io ''output.mp4'' 2 2 30 three_then_sigint"
  have x: "snd ?r = Some (ErrOpenIO ErrEnomem)" by code_simp
  have h: "HeaderWrite \<notin> set (s_trace (fst ?r))" by code_simp
  have r: "?r = (fst ?r, Some (ErrOpenIO ErrEnomem))" using x by (cases ?r) simp
  show ?thesis using StartScreenRecording_setup_failure [OF r h] r h by blast
qed

lemma StartScreenRecording_leaks_only_colored_witness:
  "StartScreenRecording (env_ok 1) ''output.mp4'' 2 2 30 three_then_sigint =
     (fst (StartScreenRecording (env_ok 1) ''output.mp4'' 2 2 30 three_then_sigint), Some Interrupted) \<and>
   leaked (res_events (s_trace (fst (StartScreenRecording (env_ok 1) ''output.mp4'' 2 2 30 three_then_sigint))))
     \<subseteq> range (\<lambda>k. Conv k ColoredFrame)"
proof -
  let ?r = "StartScreenRecording (env_ok 1) ''output.mp4'' 2 2 30 three_then_sigint"
  have x: "snd ?r = Some Interrupted" by code_simp
  have r: "?r = (fst ?r, Some Interrupted)" using x by (cases ?r) simp
  show ?thesis using StartScreenRecording_leaks_only_colored [OF r] r by blast
qed

lemma StartScreenRecording_interrupted_tail_witness:
  "StartScreenRecording (env_ok 1) ''output.mp4'' 2 2 30 three_then_sigint =
     (fst (StartScreenRecording (env_ok 1) ''output.mp4'' 2 2 30 three_then_sigint), Some Interrupted) \<and>
   s_images (fst (StartScreenRecording (env_ok 1) ''output.mp4'' 2 2 30 three_then_sigint)) = 3 \<and>
   length (oc_packets (s_out (fst (StartScreenRecording (env_ok 1) ''output.mp4'' 2 2 30 three_then_sigint)))) = 2 \<and>
   length (enc_queue (s_enc (fst (StartScreenRecording (env_ok 1) ''output.mp4'' 2 2 30 three_then_sigint)))) = 1"
proof -
  let ?r = "StartScreenRecording (env_ok 1) ''output.mp4'' 2 2 30 three_then_sigint"
  have x: "snd ?r = Some Interrupted" by code_simp
  have n: "s_images (fst ?r) = 3" by code_simp
  have r: "?r = (fst ?r, Some Interrupted)" using x by (cases ?r) simp
  show ?thesis using StartScreenRecording_interrupted_tail [OF r] r n by (simp add: env_ok_def sent_pts_def)
qed

lemma StartScreenRecording_interrupted_leak_witness:
  "StartScreenRecording (env_ok 1) ''output.mp4'' 2 2 30 three_then_sigint =
     (fst (StartScreenRecording (env_ok 1) ''output.mp4'' 2 2 30 three_then_sigint), Some Interrupted) \<and>
   leaked (res_events (s_trace (fst (StartScreenRecording (env_ok 1) ''output.mp4'' 2 2 30 three_then_sigint)))) =
     {Conv 0 ColoredFrame, Conv 1 ColoredFrame, Conv 2 ColoredFrame}"
proof -
  let ?r = "StartScreenRecording (env_ok 1) ''output.mp4'' 2 2 30 three_then_sigint"
  have x: "snd ?r = Some Interrupted" by code_simp
  have n: "s_images (fst ?r) = 3" by code_simp
  have r: "?r = (fst ?r, Some Interrupted)" using x by (cases ?r) simp
  have "(\<lambda>k. Conv k ColoredFrame) ` {..<3} = {Conv 0 ColoredFrame, Conv 1 ColoredFrame, Conv 2 ColoredFrame}"
    by (auto simp: lessThan_nat_numeral)
  then show ?thesis using StartScreenRecording_interrupted_leak [OF r] r n by simp
qed

lemma StartScreenRecording_packet_timestamps_witness:
  "StartScreenRecording (env_ok 1) ''output.mp4'' 2 2 30 three_then_sigint =
     (fst (StartScreenRecording (env_ok 1) ''output.mp4'' 2 2 30 three_then_sigint), Some Interrupted) \<and>
   header_tb (r_mux (env_ok 1)) = id \<and> (0::int) < 30 \<and>
   int (s_images (fst (StartScreenRecording (env_ok 1) ''output.mp4'' 2 2 30 three_then_sigint))) * (90000 div 30)
     \<le> INT64_MAX \<and>
   oc_packets (s_out (fst (StartScreenRecording (env_ok 1) ''output.mp4'' 2 2 30 three_then_sigint))) =
     [packet_of 0, packet_of 3000]"
proof -
  let ?r = "StartScreenRecording (env_ok 1) ''output.mp4'' 2 2 30 three_then_sigint"
  have x: "snd ?r = Some Interrupted" by code_simp
  have n: "s_images (fst ?r) = 3" by code_simp
  have r: "?r = (fst ?r, Some Interrupted)" using x by (cases ?r) simp
  have h: "header_tb (r_mux (env_ok 1)) = id" "(0::int) < 30" "int (s_images (fst ?r)) * (90000 div 30) \<le> INT64_MAX"
    using n by (simp_all add: env_ok_def mux_ok_def INT64_MAX_def)
  have "[0..<3 - min 3 (r_delay (env_ok 1))] = [0, 1]"
    by (simp add: env_ok_def upt_rec)
  then show ?thesis using StartScreenRecording_packet_timestamps [OF r h] r h n by simp
qed

lemma process_image_pts_wrap_witness:
  "sint ((3074457345618259::int64) * 3000) = 3074457345618259 * 3000 - 2 ^ 64 \<and>
   snd (process_image (env_ok 1) img2
     (session_init\<lparr>s_enc := encoder_init\<lparr>enc_opened := True, enc_delay := 1, enc_last_pts := Some 0\<rparr>,
        s_pts := 3000, s_frame_number := 3074457345618259\<rparr>)) = Some (ErrSendFrame ErrEinval)"
proof -
  let ?s = "session_init\<lparr>s_enc := encoder_init\<lparr>enc_opened := True, enc_delay := 1, enc_last_pts := Some 0\<rparr>,
        s_pts := 3000, s_frame_number := 3074457345618259\<rparr>"
  have c: "fst (ImageRGBAtoAVFrame (r_conv (env_ok 1) (s_images ?s)) img2) = Inr (converted_frame img2)"
    by code_simp
  have e: "enc_opened (s_enc ?s)" "\<not> enc_draining (s_enc ?s)"
    "length (enc_queue (s_enc ?s)) \<le> enc_delay (s_enc ?s)" "enc_last_pts (s_enc ?s) = Some 0" "(0::int) \<le> 0"
    by (simp_all add: encoder_init_def)
  have p: "s_pts ?s = word_of_int 3000" "(0::int) \<le> 3000"
    "INT64_MAX < uint (s_frame_number ?s) * 3000" "uint (s_frame_number ?s) * 3000 < 2 ^ 64"
    by (simp_all add: INT64_MAX_def)
  show ?thesis
    using process_image_pts_wrap [OF c e p] by simp
qed

lemma StartScreenRecording_fps_above_90000_witness:
  "StartScreenRecording (env_ok 1) ''output.mp4'' 2 2 100000 three_then_sigint =
     (fst (StartScreenRecording (env_ok 1) ''output.mp4'' 2 2 100000 three_then_sigint), Some (ErrSendFrame ErrEinval)) \<and>
   (90000::int) < 100000 \<and>
   s_images (fst (StartScreenRecording (env_ok 1) ''output.mp4'' 2 2 100000 three_then_sigint)) \<le> 2"
proof -
  let ?r = "StartScreenRecording (env_ok 1) ''output.mp4'' 2 2 100000 three_then_sigint"
  have x: "snd ?r = Some (ErrSendFrame ErrEinval)" by code_simp
  have r: "?r = (fst ?r, Some (ErrSendFrame ErrEinval))" using x by (cases ?r) simp
  have h: "(90000::int) < 100000" by simp
  show ?thesis using StartScreenRecording_fps_above_90000 [OF h r] r h by blast
qed

lemma setup_recording_bit_rate_witness:
  "setup_recording (env_ok 1) ''output.mp4'' 2 2 30 =
     Inl (projl (setup_recording (env_ok 1) ''output.mp4'' 2 2 30)) \<and>
   cc_bit_rate (s_enc_ctx (projl (setup_recording (env_ok 1) ''output.mp4'' 2 2 30))) = 0"
proof -
  let ?r = "setup_recording (env_ok 1) ''output.mp4'' 2 2 30"
  have x: "isl ?r" by code_simp
  then have r: "?r = Inl (projl ?r)" by (cases ?r) simp_all
  show ?thesis using setup_recording_bit_rate [OF r] r by blast
qed

lemma StartScreenRecording_runs_until_interrupt_witness:
  "setup_ok (env_ok 1) \<and> header_tb (r_mux (env_ok 1)) = id \<and> (\<forall>i. write_err (r_mux (env_ok 1)) i = None) \<and>
   (\<forall>k. conv_succeeds (r_conv (env_ok 1) k) \<and> r_packet_ok (env_ok 1) k) \<and> (0::int) < 30 \<and> (30::int) \<le> 90000 \<and>
   int (length [img2, img2, img2]) * (90000 div 30) \<le> INT64_MAX \<and>
   0 < Dx (img_rect img2) \<and> 0 < Dy (img_rect img2) \<and>
   snd (StartScreenRecording (env_ok 1) ''output.mp4'' 2 2 30 (map EvImage [img2, img2, img2] @ [EvDone])) =
     Some Interrupted"
proof -
  have h: "setup_ok (env_ok 1)" "header_tb (r_mux (env_ok 1)) = id" "\<forall>i. write_err (r_mux (env_ok 1)) i = None"
    "\<forall>k. conv_succeeds (r_conv (env_ok 1) k) \<and> r_packet_ok (env_ok 1) k" "(0::int) < 30" "(30::int) \<le> 90000"
    "int (length [img2, img2, img2]) * (90000 div 30) \<le> INT64_MAX"
    "\<forall>img \<in> set [img2, img2, img2]. 0 < Dx (img_rect img) \<and> 0 < Dy (img_rect img)"
    by (simp_all add: setup_ok_def env_ok_def mux_ok_def h264_registry_def FindEncoder_def conv_ok_def
        conv_succeeds_def INT64_MAX_def img2_def Dx_def Dy_def)
  show ?thesis
    using StartScreenRecording_runs_until_interrupt [OF h] h by simp
qed

end
