(* ===== verification/Concurrency.thy ===== *)
theory Concurrency
  imports Sampler Recording
begin

text \<open>
  The two goroutines of the recorder and the operator's interrupt, interleaved.
  \<open>StartScreenRecording\<close> starts \<open>StartScreenCap\<close> at line 137 and then runs its select
  loop; the two share the context of \<open>signal.NotifyContext\<close> (line 130) and the
  unbuffered channel \<open>imgChan\<close> (line 134). A \<open>world\<close> holds the context's state, the
  sampler, the consumer's session and program point, and (as a ghost) the sequence of
  select outcomes the consumer took. \<open>world_step\<close> has one rule per thing that can
  happen next: SIGINT, the sampler goroutine's first step (lines 13-22), a tick of
  the sampler's ticker, the sampler seeing \<open>ctx.Done()\<close>, the hand-off of an image
  through the channel (sender and receiver meet), the consumer seeing
  \<open>ctx.Done()\<close>, and the unwinding of the consumer's panic at line 147. Go's select
  picks at random among ready cases, so the rules have no priorities. When
  \<open>StartScreenRecording\<close> returns, \<open>main\<close> returns and the process ends; a panic
  ends it once the panicking goroutine has run its deferred calls (the sampler has
  none before line 22): no step is possible from such a world. The consumer's steps,
  a received image with the calls it makes and the unwinding of its defer stack,
  are atomic; the sampler may run before or after each of them.
\<close>

datatype cons_pc = CRunning | CPanicking go_panic | CReturned exit_reason

record world =
  w_cancelled :: bool
  w_sampler :: sampler
  w_sess :: session
  w_cons :: cons_pc
  w_consumed :: "cons_event list"

datatype wlabel = LSigint | LSamplerStart | LTick | LSamplerDone | LHandoff | LConsumerDone | LUnwind

fun sampler_panicked :: "sampler_pc \<Rightarrow> bool" where
  "sampler_panicked (SPanicked _) = True"
| "sampler_panicked _ = False"

fun cons_live :: "cons_pc \<Rightarrow> bool" where
  "cons_live (CReturned _) = False"
| "cons_live _ = True"

text \<open>
  The process runs while neither goroutine has ended it: the consumer has not returned
  from \<open>StartScreenRecording\<close> (then \<open>main\<close> returns) and has not finished the
  unwinding of a panic, and the sampler has not panicked.
\<close>

definition alive :: "world \<Rightarrow> bool" where
  "alive w \<longleftrightarrow> cons_live (w_cons w) \<and> \<not> sampler_panicked (sm_pc (w_sampler w))"

fun cons_result :: "cons_pc \<Rightarrow> exit_reason option" where
  "cons_result CRunning = None"
| "cons_result (CPanicking p) = Some (PanicPts p)"
| "cons_result (CReturned x) = Some x"

text \<open>
  The consumer's state as the sequential model sees it: a panicking consumer is
  seen once its unwinding has run the whole defer stack.
\<close>

fun cons_outcome :: "rec_env \<Rightarrow> cons_pc \<Rightarrow> session \<Rightarrow> session \<times> exit_reason option" where
  "cons_outcome env (CPanicking p) s = finish env s (PanicPts p)"
| "cons_outcome env pc s = (s, cons_result pc)"

text \<open>
  Lines 63-148: the set-up; the sampler goroutine is created (line 137) only once the
  header is written, and the pts increment is computed after that (line 147). A
  panic there starts the unwinding of the consumer's defer stack, which races with
  the sampler goroutine.
\<close>

definition start_world :: "rec_env \<Rightarrow> string \<Rightarrow> int \<Rightarrow> int \<Rightarrow> int \<Rightarrow> rectangle \<Rightarrow> world" where
  "start_world env filename width height fps res =
     (case setup_recording env filename width height fps of
        Inr (s, x) \<Rightarrow>
          \<lparr>w_cancelled = False, w_sampler = sampler_idle, w_sess = fst (finish env s x),
           w_cons = CReturned x, w_consumed = []\<rparr>
      | Inl s \<Rightarrow>
          (case pts_increment fps of
             Inl p \<Rightarrow>
               \<lparr>w_cancelled = False, w_sampler = sampler_go res fps, w_sess = s,
                w_cons = CPanicking p, w_consumed = []\<rparr>
           | Inr inc \<Rightarrow>
               \<lparr>w_cancelled = False, w_sampler = sampler_go res fps,
                w_sess = s\<lparr>s_pts := inc, s_frame_number := 0\<rparr>, w_cons = CRunning,
                w_consumed = []\<rparr>))"

text \<open>
  Lines 155-206 after \<open>img := <-imgChan\<close>; a return runs the defer stack, whose
  \<open>stop()\<close> cancels the context.
\<close>

definition consumer_receive :: "rec_env \<Rightarrow> image_rgba \<Rightarrow> world \<Rightarrow> world" where
  "consumer_receive env img w =
     (case process_image env img (w_sess w) of
        (s', None) \<Rightarrow> w\<lparr>w_sess := s', w_consumed := w_consumed w @ [EvImage img]\<rparr>
      | (s', Some x) \<Rightarrow>
          w\<lparr>w_sess := fst (finish env s' x), w_cons := CReturned x,
            w_cancelled := (w_cancelled w \<or> s_cancelled (fst (finish env s' x))),
            w_consumed := w_consumed w @ [EvImage img]\<rparr>)"

text \<open>Lines 153-154: \<open>case <-ctx.Done(): return\<close>.\<close>

definition consumer_done :: "rec_env \<Rightarrow> world \<Rightarrow> world" where
  "consumer_done env w =
     w\<lparr>w_sess := fst (finish env ((w_sess w)\<lparr>s_cancelled := True\<rparr>) Interrupted),
       w_cons := CReturned Interrupted, w_consumed := w_consumed w @ [EvDone]\<rparr>"

text \<open>
  The unwinding of the panic of line 147: the deferred calls run, newest first
  (\<open>stop()\<close>, the trailer closure, the frees), and then the panic ends the process.
\<close>

definition consumer_unwind :: "rec_env \<Rightarrow> go_panic \<Rightarrow> world \<Rightarrow> world" where
  "consumer_unwind env p w =
     w\<lparr>w_sess := fst (finish env (w_sess w) (PanicPts p)), w_cons := CReturned (PanicPts p),
       w_cancelled := (w_cancelled w \<or> s_cancelled (fst (finish env (w_sess w) (PanicPts p))))\<rparr>"

inductive world_step :: "rec_env \<Rightarrow> capture_fn \<Rightarrow> world \<Rightarrow> wlabel \<Rightarrow> world \<Rightarrow> bool"
  for env capture where
  sigint: "alive w \<Longrightarrow> \<not> w_cancelled w \<Longrightarrow>
    world_step env capture w LSigint (w\<lparr>w_cancelled := True\<rparr>)"
| sampler_begin: "alive w \<Longrightarrow> sm_pc (w_sampler w) = SStarting n \<Longrightarrow>
    world_step env capture w LSamplerStart (w\<lparr>w_sampler := sampler_start (w_sampler w)\<rparr>)"
| tick: "alive w \<Longrightarrow> sm_pc (w_sampler w) = SLoop \<Longrightarrow>
    world_step env capture w LTick (w\<lparr>w_sampler := sampler_tick capture (w_sampler w)\<rparr>)"
| sampler_ctx_done: "alive w \<Longrightarrow> sm_pc (w_sampler w) = SLoop \<Longrightarrow> w_cancelled w \<Longrightarrow>
    world_step env capture w LSamplerDone (w\<lparr>w_sampler := sampler_done (w_sampler w)\<rparr>)"
| handoff: "alive w \<Longrightarrow> w_cons w = CRunning \<Longrightarrow> sm_pc (w_sampler w) = SSend img \<Longrightarrow>
    world_step env capture w LHandoff ((consumer_receive env img w)\<lparr>w_sampler := sampler_sent (w_sampler w)\<rparr>)"
| consumer_ctx_done: "alive w \<Longrightarrow> w_cons w = CRunning \<Longrightarrow> w_cancelled w \<Longrightarrow>
    world_step env capture w LConsumerDone (consumer_done env w)"
| unwind: "alive w \<Longrightarrow> w_cons w = CPanicking p \<Longrightarrow>
    world_step env capture w LUnwind (consumer_unwind env p w)"

inductive world_reach ::
  "rec_env \<Rightarrow> capture_fn \<Rightarrow> string \<Rightarrow> int \<Rightarrow> int \<Rightarrow> int \<Rightarrow> rectangle \<Rightarrow> world \<Rightarrow> bool"
  for env capture filename width height fps res where
  start: "world_reach env capture filename width height fps res (start_world env filename width height fps res)"
| step: "world_reach env capture filename width height fps res w \<Longrightarrow> world_step env capture w l w' \<Longrightarrow>
    world_reach env capture filename width height fps res w'"

inductive_cases world_stepE: "world_step env capture w l w'"

fun cons_images :: "cons_event list \<Rightarrow> image_rgba list" where
  "cons_images [] = []"
| "cons_images (EvImage img # evs) = img # cons_images evs"
| "cons_images (EvDone # evs) = cons_images evs"

lemma cons_images_append [simp]:
  "cons_images (xs @ ys) = cons_images xs @ cons_images ys"
  by (induction xs rule: cons_images.induct) auto

text \<open>Screenshot oracles for the examples: every capture succeeds, or every capture fails.\<close>

definition capture_ok :: capture_fn where
  "capture_ok res k = Inr img2"

definition capture_fails :: capture_fn where
  "capture_fails res k = Inl (NewError ''capture failed'')"

definition screen2 :: rectangle where
  "screen2 = \<lparr>min_x = 0, min_y = 0, max_x = 2, max_y = 2\<rparr>"

text \<open>The recording of a 2x2 screen at 30 fps once the sampler goroutine has started.\<close>

definition started30 :: world where
  "started30 = (start_world (env_ok 1) ''output.mp4'' 2 2 30 screen2)\<lparr>w_sampler :=
     sampler_start (w_sampler (start_world (env_ok 1) ''output.mp4'' 2 2 30 screen2))\<rparr>"

text \<open>
  The invariant of every reachable world: the sampler's ticker runs exactly while the
  sampler is in its loop (it is created at line 21 and stopped by the deferred
  \<open>ticker.Stop()\<close> of line 22 on every return); the container is never misused;
  while the consumer runs or unwinds a panic, the sampler goroutine has been created
  and the header is written; once the consumer has returned, the file is not left
  with a header and no trailer, and the context is cancelled unless the sampler was
  never created.
\<close>
fun sampler_active :: "sampler_pc \<Rightarrow> bool" where
  "sampler_active SLoop = True"
| "sampler_active (SSend _) = True"
| "sampler_active _ = False"

definition world_inv :: "world \<Rightarrow> bool" where
  "world_inv w \<longleftrightarrow>
     sm_ticker_running (w_sampler w) = sampler_active (sm_pc (w_sampler w)) \<and>
     \<not> oc_misuse (s_out (w_sess w)) \<and>
     (if cons_live (w_cons w)
      then sm_pc (w_sampler w) \<noteq> SNotStarted \<and> oc_phase (s_out (w_sess w)) = HeaderWritten
      else oc_phase (s_out (w_sess w)) \<noteq> HeaderWritten \<and>
           (sm_pc (w_sampler w) = SNotStarted \<or> w_cancelled w))"

section \<open>The consumer of an interleaving is the sequential model\<close>

lemma StartScreenRecording_running:
  assumes "StartScreenRecording env f wd ht fps evs = (s, None)"
  obtains s0 inc where "setup_recording env f wd ht fps = Inl s0" "pts_increment fps = Inr inc"
    "consume env evs (s0\<lparr>s_pts := inc, s_frame_number := 0\<rparr>) = (s, None)"
  using assms
  by (auto simp: StartScreenRecording_def finish_def split: sum.splits prod.splits option.splits)

lemma StartScreenRecording_snoc:
  assumes "StartScreenRecording env f wd ht fps evs = (s, None)"
  shows "StartScreenRecording env f wd ht fps (evs @ [ev]) =
    (case consume env [ev] s of (s', None) \<Rightarrow> (s', None) | (s', Some x) \<Rightarrow> finish env s' x)"
proof -
  obtain s0 inc where "setup_recording env f wd ht fps = Inl s0" "pts_increment fps = Inr inc"
    "consume env evs (s0\<lparr>s_pts := inc, s_frame_number := 0\<rparr>) = (s, None)"
    using assms by (rule StartScreenRecording_running)
  then show ?thesis
    by (simp add: StartScreenRecording_def consume_snoc)
qed

lemma pts_increment_Inl:
  "pts_increment fps = Inl p \<Longrightarrow> fps = 0 \<and> p = DivideByZero"
  by (auto simp: pts_increment_def go_div_def split: if_splits)

lemma sampler_start_zero:
  "sm_pc sm = SStarting 0 \<Longrightarrow> sm_pc (sampler_start sm) = SPanicked DivideByZero"
  by (simp add: sampler_start_def StartScreenCap_def wait_time_def go_div_def sampler_idle_def)

text \<open>
  A panicking consumer is the one of \<open>fps = 0\<close>: its session is the one the set-up
  left, it has received nothing, and the sampler either has not run yet or has
  panicked too.
\<close>

lemma world_panicking:
  assumes "world_reach env capture f wd ht fps res w" "w_cons w = CPanicking p"
  shows "setup_recording env f wd ht fps = Inl (w_sess w) \<and> pts_increment fps = Inl p \<and>
    fps = 0 \<and> w_consumed w = [] \<and>
    (sm_pc (w_sampler w) = SStarting 0 \<or> sm_pc (w_sampler w) = SPanicked DivideByZero)"
  using assms
proof (induction arbitrary: p rule: world_reach.induct)
  case start
  then show ?case
    by (auto simp: start_world_def sampler_go_def sampler_idle_def dest: pts_increment_Inl
        split: sum.splits prod.splits)
next
  case (step w l w')
  from step.hyps(2) step.IH step.prems show ?case
  proof (cases rule: world_step.cases)
    case (sampler_begin n)
    with step.IH step.prems have "sm_pc (w_sampler w) = SStarting 0" by auto
    with sampler_begin step.IH step.prems show ?thesis by (auto simp: sampler_start_zero)
  next
    case tick
    with step.IH step.prems show ?thesis by auto
  next
    case sampler_ctx_done
    with step.IH step.prems show ?thesis by auto
  qed (auto simp: consumer_receive_def consumer_done_def consumer_unwind_def split: prod.splits option.splits)
qed

lemma world_sim:
  "world_reach env capture f wd ht fps res w \<Longrightarrow>
     StartScreenRecording env f wd ht fps (w_consumed w) = cons_outcome env (w_cons w) (w_sess w)"
proof (induction rule: world_reach.induct)
  case start
  show ?case
    by (auto simp: start_world_def StartScreenRecording_def finish_def split: sum.splits prod.splits)
next
  case (step w l w')
  from step.hyps(2) step.IH show ?case
  proof (cases rule: world_step.cases)
    case (handoff img)
    then have r: "StartScreenRecording env f wd ht fps (w_consumed w) = (w_sess w, None)"
      using step.IH by simp
    show ?thesis
      using handoff StartScreenRecording_snoc [OF r, of "EvImage img"]
      by (auto simp: consumer_receive_def finish_def split: prod.splits option.splits)
  next
    case consumer_ctx_done
    then have r: "StartScreenRecording env f wd ht fps (w_consumed w) = (w_sess w, None)"
      using step.IH by simp
    show ?thesis
      using consumer_ctx_done StartScreenRecording_snoc [OF r, of EvDone]
      by (simp add: consumer_done_def finish_def)
  next
    case (unwind p)
    with step.IH show ?thesis
      by (simp add: consumer_unwind_def finish_def)
  qed simp_all
qed

lemma world_running_loop_inv:
  assumes "world_reach env capture f wd ht fps res w" "w_cons w = CRunning"
  shows "loop_inv env (w_sess w)"
proof -
  have "StartScreenRecording env f wd ht fps (w_consumed w) = (w_sess w, None)"
    using world_sim [OF assms(1)] assms(2) by simp
  then obtain s0 inc where s0: "setup_recording env f wd ht fps = Inl s0"
    and c: "consume env (w_consumed w) (s0\<lparr>s_pts := inc, s_frame_number := 0\<rparr>) = (w_sess w, None)"
    by (rule StartScreenRecording_running) blast
  show ?thesis
    using consume_inv [OF c loop_inv_start [OF s0]] by simp
qed

section \<open>The invariant of the interleavings\<close>

lemma exit_inv_finish:
  assumes "exit_inv s"
  shows "oc_phase (s_out (fst (finish env s x))) = TrailerWritten \<and>
    \<not> oc_misuse (s_out (fst (finish env s x))) \<and> s_cancelled (fst (finish env s x))"
proof -
  obtain pre body where "fst (finish env s x) = s\<lparr>s_out := (s_out s)\<lparr>oc_phase := TrailerWritten\<rparr>,
      s_cancelled := True, s_defers := [], s_trace := setup_trace @ body @ concat (map release_of pre) @ final_trace env\<rparr>"
    "\<not> oc_misuse (s_out s)"
    by (rule finish_exit_inv [OF assms]) blast
  then show ?thesis by simp
qed

lemma StartScreenCap_ticker:
  "sm_ticker_running (StartScreenCap res fps) = sampler_active (sm_pc (StartScreenCap res fps)) \<and>
   sm_pc (StartScreenCap res fps) \<noteq> SNotStarted"
  by (simp add: StartScreenCap_def sampler_idle_def split: sum.splits)

lemma setup_exit_inv:
  "setup_recording env f wd ht fps = Inl s0 \<Longrightarrow> exit_inv s0"
  using loop_inv_exit_inv [OF loop_inv_start [of env f wd ht fps s0 0]] by simp

lemma world_inv_start:
  "world_inv (start_world env f wd ht fps res)"
proof (cases "setup_recording env f wd ht fps")
  case (Inr a)
  obtain s0 x where a: "a = (s0, x)" by (cases a)
  with Inr have "setup_recording env f wd ht fps = Inr (s0, x)" by simp
  then obtain rs where "oc_phase (s_out (fst (finish env s0 x))) = Unopened"
    "\<not> oc_misuse (s_out (fst (finish env s0 x)))"
    by (rule finish_setup)
  with Inr a show ?thesis
    by (simp add: start_world_def world_inv_def sampler_idle_def)
next
  case (Inl s0)
  have st: "oc_phase (s_out s0) = HeaderWritten" "\<not> oc_misuse (s_out s0)"
    using setup_exit_inv [OF Inl] by (auto elim: exit_invE)
  with Inl show ?thesis
    by (simp add: start_world_def world_inv_def sampler_go_def sampler_idle_def split: sum.splits)
qed

lemma loop_inv_phase:
  "loop_inv env s \<Longrightarrow> oc_phase (s_out s) = HeaderWritten \<and> \<not> oc_misuse (s_out s)"
  by (simp add: loop_inv_def flow_inv_def)

lemma world_inv_handoff:
  assumes inv: "world_inv w" and l: "loop_inv env (w_sess w)" and r: "w_cons w = CRunning"
    and pc: "sm_pc (w_sampler w) = SSend img"
  shows "world_inv ((consumer_receive env img w)\<lparr>w_sampler := sampler_sent (w_sampler w)\<rparr>)"
proof -
  have tk: "sm_ticker_running (w_sampler w)"
    using inv pc by (simp add: world_inv_def)
  obtain s' x where pi: "process_image env img (w_sess w) = (s', x)"
    by (cases "process_image env img (w_sess w)")
  note pinv = process_image_inv [OF pi l]
  show ?thesis
  proof (cases x)
    case None
    with pinv have "loop_inv env s'" by simp
    with pi None r pc tk show ?thesis
      by (simp add: consumer_receive_def world_inv_def sampler_sent_def loop_inv_phase)
  next
    case (Some y)
    with pinv have "exit_inv s'" by simp
    note f = exit_inv_finish [OF this, of env y]
    with pi Some pc tk show ?thesis
      by (simp add: consumer_receive_def world_inv_def sampler_sent_def)
  qed
qed

lemma world_inv_step:
  assumes reach: "world_reach env capture f wd ht fps res w" and inv: "world_inv w"
    and st: "world_step env capture w l w'"
  shows "world_inv w'"
  using st
proof (cases rule: world_step.cases)
  case sigint
  with inv show ?thesis by (simp add: world_inv_def)
next
  case tick
  with inv show ?thesis
    by (auto simp: world_inv_def sampler_tick_def Let_def split: sum.splits)
next
  case sampler_ctx_done
  with inv show ?thesis by (simp add: world_inv_def sampler_done_def)
next
  case (sampler_begin n)
  with inv show ?thesis
    using StartScreenCap_ticker [of "sm_bounds (w_sampler w)" n]
    by (simp add: world_inv_def sampler_start_def alive_def)
next
  case (handoff img)
  with world_running_loop_inv [OF reach] have "loop_inv env (w_sess w)" by simp
  with handoff inv show ?thesis by (simp add: world_inv_handoff)
next
  case consumer_ctx_done
  with world_running_loop_inv [OF reach] have "loop_inv env (w_sess w)" by simp
  then have "exit_inv ((w_sess w)\<lparr>s_cancelled := True\<rparr>)"
    by (simp add: loop_inv_exit_inv loop_inv_cancelled)
  note f = exit_inv_finish [OF this, of env Interrupted]
  with consumer_ctx_done inv show ?thesis
    by (simp add: world_inv_def consumer_done_def)
next
  case (unwind p)
  then have "setup_recording env f wd ht fps = Inl (w_sess w)"
    using world_panicking [OF reach] by blast
  note f = exit_inv_finish [OF setup_exit_inv [OF this], of env "PanicPts p"]
  with unwind inv show ?thesis
    by (simp add: world_inv_def consumer_unwind_def)
qed

lemma world_step_alive:
  "world_step env capture w l w' \<Longrightarrow> alive w"
  by (cases rule: world_step.cases) simp_all

lemma started30_reach:
  "world_reach (env_ok 1) capture ''output.mp4'' 2 2 30 screen2 started30 \<and> alive started30 \<and>
   sm_pc (w_sampler started30) = SLoop \<and> \<not> w_cancelled started30 \<and> w_cons started30 = CRunning"
proof -
  let ?w0 = "start_world (env_ok 1) ''output.mp4'' 2 2 30 screen2"
  have a0: "alive ?w0" "sm_pc (w_sampler ?w0) = SStarting 30"
    by code_simp+
  have "world_reach (env_ok 1) capture ''output.mp4'' 2 2 30 screen2 started30"
    unfolding started30_def
    by (rule world_reach.step [OF world_reach.start world_step.sampler_begin [OF a0]])
  moreover have "alive started30 \<and> sm_pc (w_sampler started30) = SLoop \<and> \<not> w_cancelled started30 \<and>
      w_cons started30 = CRunning"
    by code_simp
  ultimately show ?thesis by blast
qed

section \<open>Properties of the interleavings\<close>

text \<open>
  C6: in every interleaving of the sampler, the consumer and SIGINT, the consumer's
  state is exactly what the sequential model \<open>StartScreenRecording\<close> computes from
  the select outcomes it took, and the images it received are the images the
  sampler captured, in capture order, none lost or repeated except the one the
  sampler may be blocked sending.
\<close>

theorem interleaving_refines_sequential:
  assumes "world_reach env capture f wd ht fps res w"
  shows "StartScreenRecording env f wd ht fps (w_consumed w) = cons_outcome env (w_cons w) (w_sess w) \<and>
    cons_images (w_consumed w) @ pending (w_sampler w) =
      captured capture (sm_bounds (w_sampler w)) (sm_captures (w_sampler w))"
proof -
  have "cons_images (w_consumed w) @ pending (w_sampler w) =
      captured capture (sm_bounds (w_sampler w)) (sm_captures (w_sampler w)) \<and>
    (\<forall>n. sm_pc (w_sampler w) = SStarting n \<longrightarrow> sm_captures (w_sampler w) = 0)"
    using assms
  proof (induction rule: world_reach.induct)
    case start
    show ?case
      by (auto simp: start_world_def sampler_go_def sampler_idle_def pending_def captured_def
          split: sum.splits prod.splits)
  next
    case (step w l w')
    from step.hyps(2) step.IH show ?case
    proof (cases rule: world_step.cases)
      case (sampler_begin n)
      with step.IH show ?thesis
        by (auto simp: sampler_start_def StartScreenCap_def sampler_idle_def pending_def captured_def
            split: sum.splits)
    next
      case tick
      with step.IH show ?thesis
        by (auto simp: sampler_tick_def pending_def captured_Suc Let_def split: sum.splits)
    next
      case (handoff img)
      with step.IH show ?thesis
        by (auto simp: consumer_receive_def sampler_sent_def pending_def split: prod.splits option.splits)
    qed (simp_all add: sampler_done_def pending_def consumer_done_def consumer_unwind_def)
  qed
  with world_sim [OF assms] show ?thesis by blast
qed

text \<open>
  C9: when a capture fails, the sampler returns its error (line 35), which the
  goroutine of lines 137-142 only prints: the context is not cancelled, and while no
  SIGINT arrives nothing else can happen (a consumer unwinding a panic cannot be
  beside such a sampler: that needs \<open>fps = 0\<close>, where the sampler never gets past
  line 15); the consumer waits in its select without
  stopping, flushing or finalizing the file.
\<close>

theorem capture_error_waits_for_sigint:
  assumes "world_reach env capture f wd ht fps res w"
    "sm_pc (w_sampler w) = SReturned (Some e)" "\<not> w_cancelled w"
    "world_step env capture w l w'"
  shows "l = LSigint \<and> w' = w\<lparr>w_cancelled := True\<rparr>"
  using assms(4)
proof (cases rule: world_step.cases)
  case (unwind p)
  with world_panicking [OF assms(1)] assms(2) show ?thesis by simp
qed (use assms(2,3) in simp_all)

text \<open>
  C12: cancellation does not stop the consumer from starting new work: there is an
  interleaving in which the context is already cancelled and the consumer still
  receives, converts, encodes and writes one more image, because Go's select chooses
  at random between \<open>ctx.Done()\<close> and a ready channel.
\<close>

theorem image_processed_after_cancel:
  "\<exists>w w'. world_reach (env_ok 1) capture_ok ''output.mp4'' 2 2 30 screen2 w \<and> w_cancelled w \<and>
     world_step (env_ok 1) capture_ok w LHandoff w' \<and>
     w_consumed w' = w_consumed w @ [EvImage img2] \<and> w_cons w' = CRunning \<and>
     s_images (w_sess w') = Suc (s_images (w_sess w))"
proof -
  let ?w1 = "started30\<lparr>w_sampler := sampler_tick capture_ok (w_sampler started30)\<rparr>"
  let ?w2 = "?w1\<lparr>w_cancelled := True\<rparr>"
  let ?w3 = "(consumer_receive (env_ok 1) img2 ?w2)\<lparr>w_sampler := sampler_sent (w_sampler ?w2)\<rparr>"
  note a0 = started30_reach [of capture_ok]
  have r1: "world_reach (env_ok 1) capture_ok ''output.mp4'' 2 2 30 screen2 ?w1"
    using a0 by (blast intro: world_reach.step world_step.tick)
  have a1: "alive ?w1" "\<not> w_cancelled ?w1" "sm_pc (w_sampler ?w1) = SSend img2" "w_cons ?w1 = CRunning"
    using a0 by (simp_all add: alive_def sampler_tick_def capture_ok_def)
  have r2: "world_reach (env_ok 1) capture_ok ''output.mp4'' 2 2 30 screen2 ?w2"
    by (rule world_reach.step [OF r1 world_step.sigint [OF a1(1,2)]])
  have a2: "alive ?w2" "w_cons ?w2 = CRunning" "sm_pc (w_sampler ?w2) = SSend img2"
    using a1 by (simp_all add: alive_def)
  have s3: "world_step (env_ok 1) capture_ok ?w2 LHandoff ?w3"
    by (rule world_step.handoff [OF a2])
  have "w_consumed ?w3 = w_consumed ?w2 @ [EvImage img2] \<and> w_cons ?w3 = CRunning \<and>
      s_images (w_sess ?w3) = Suc (s_images (w_sess ?w2))"
    by code_simp
  with r2 s3 show ?thesis
    by (intro exI [of _ ?w2] exI [of _ ?w3]) simp
qed

text \<open>
  C7: every world reachable from the start, under any interleaving of SIGINT, the
  sampler's start, ticks, hand-offs, the two \<open>ctx.Done()\<close> branches and the
  unwinding of a panic, satisfies \<open>world_inv\<close>.
\<close>

theorem reachable_world_inv:
  assumes "world_reach env capture f wd ht fps res w"
  shows "world_inv w"
  using assms
proof (induction rule: world_reach.induct)
  case start
  show ?case by (rule world_inv_start)
next
  case (step w l w')
  then show ?case by (blast intro: world_inv_step)
qed

text \<open>
  C15: with \<open>fps = 0\<close> the consumer panics at line 147 (integer division by zero)
  after the sampler goroutine has been created at line 137, and that goroutine panics
  on its own division at line 15. Whichever panic completes first ends the process:
  there is an interleaving in which the process ends with the header written and no
  trailer (a corrupt MP4 file), and one in which the consumer's deferred trailer is
  written first.
\<close>

theorem fps_zero_trailer_race:
  assumes "setup_ok env"
  shows "(\<exists>w. world_reach env capture f wd ht 0 res w \<and> (\<forall>l w'. \<not> world_step env capture w l w') \<and>
            w_cons w = CPanicking DivideByZero \<and> oc_phase (s_out (w_sess w)) = HeaderWritten) \<and>
         (\<exists>w. world_reach env capture f wd ht 0 res w \<and> (\<forall>l w'. \<not> world_step env capture w l w') \<and>
            w_cons w = CReturned (PanicPts DivideByZero) \<and> oc_phase (s_out (w_sess w)) = TrailerWritten)"
proof -
  obtain s0 where s0: "setup_recording env f wd ht 0 = Inl s0"
    using setup_recording_ok [OF assms] by blast
  have p: "pts_increment 0 = Inl DivideByZero"
    by (simp add: pts_increment_def go_div_def)
  let ?w0 = "start_world env f wd ht 0 res"
  have w0: "w_sess ?w0 = s0" "w_cons ?w0 = CPanicking DivideByZero" "sm_pc (w_sampler ?w0) = SStarting 0"
    using s0 p by (simp_all add: start_world_def sampler_go_def sampler_idle_def)
  then have a0: "alive ?w0" by (simp add: alive_def)
  have hw: "oc_phase (s_out s0) = HeaderWritten"
    using setup_exit_inv [OF s0] by (auto elim: exit_invE)
  let ?wa = "?w0\<lparr>w_sampler := sampler_start (w_sampler ?w0)\<rparr>"
  have ra: "world_reach env capture f wd ht 0 res ?wa"
    by (rule world_reach.step [OF world_reach.start world_step.sampler_begin [OF a0 w0(3)]])
  have "\<not> alive ?wa"
    using sampler_start_zero [OF w0(3)] by (simp add: alive_def)
  then have "\<forall>l w'. \<not> world_step env capture ?wa l w'"
    by (blast dest: world_step_alive)
  with ra w0 hw have A: "\<exists>w. world_reach env capture f wd ht 0 res w \<and> (\<forall>l w'. \<not> world_step env capture w l w') \<and>
      w_cons w = CPanicking DivideByZero \<and> oc_phase (s_out (w_sess w)) = HeaderWritten"
    by (intro exI [of _ ?wa]) simp
  let ?wb = "consumer_unwind env DivideByZero ?w0"
  have rb: "world_reach env capture f wd ht 0 res ?wb"
    by (rule world_reach.step [OF world_reach.start world_step.unwind [OF a0 w0(2)]])
  have "\<not> alive ?wb" by (simp add: alive_def consumer_unwind_def)
  then have "\<forall>l w'. \<not> world_step env capture ?wb l w'"
    by (blast dest: world_step_alive)
  moreover have "oc_phase (s_out (w_sess ?wb)) = TrailerWritten"
    using exit_inv_finish [OF setup_exit_inv [OF s0], of env "PanicPts DivideByZero"] w0(1)
    by (simp add: consumer_unwind_def)
  ultimately have B: "\<exists>w. world_reach env capture f wd ht 0 res w \<and> (\<forall>l w'. \<not> world_step env capture w l w') \<and>
      w_cons w = CReturned (PanicPts DivideByZero) \<and> oc_phase (s_out (w_sess w)) = TrailerWritten"
    using rb by (intro exI [of _ ?wb]) (simp add: consumer_unwind_def)
  from A B show ?thesis by blast
qed

section \<open>The properties at concrete interleavings\<close>

lemma interleaving_refines_sequential_witness:
  "world_reach (env_ok 1) capture_ok ''output.mp4'' 2 2 30 screen2
     (started30\<lparr>w_sampler := sampler_tick capture_ok (w_sampler started30)\<rparr>) \<and>
   captured capture_ok screen2 1 = [img2]"
proof -
  let ?w1 = "started30\<lparr>w_sampler := sampler_tick capture_ok (w_sampler started30)\<rparr>"
  note a0 = started30_reach [of capture_ok]
  have r1: "world_reach (env_ok 1) capture_ok ''output.mp4'' 2 2 30 screen2 ?w1"
    using a0 by (blast intro: world_reach.step world_step.tick)
  have "cons_images (w_consumed ?w1) @ pending (w_sampler ?w1) =
      captured capture_ok (sm_bounds (w_sampler ?w1)) (sm_captures (w_sampler ?w1))"
    using interleaving_refines_sequential [OF r1] by blast
  moreover have "cons_images (w_consumed ?w1) @ pending (w_sampler ?w1) = [img2]"
    "sm_bounds (w_sampler ?w1) = screen2" "sm_captures (w_sampler ?w1) = 1"
    by code_simp+
  ultimately show ?thesis
    using r1 by simp
qed

lemma capture_error_waits_for_sigint_witness:
  "world_reach (env_ok 1) capture_fails ''output.mp4'' 2 2 30 screen2
     (started30\<lparr>w_sampler := sampler_tick capture_fails (w_sampler started30)\<rparr>) \<and>
   {(l, w'). world_step (env_ok 1) capture_fails
       (started30\<lparr>w_sampler := sampler_tick capture_fails (w_sampler started30)\<rparr>) l w'} =
   {(LSigint, started30\<lparr>w_sampler := sampler_tick capture_fails (w_sampler started30), w_cancelled := True\<rparr>)}"
proof -
  let ?w1 = "started30\<lparr>w_sampler := sampler_tick capture_fails (w_sampler started30)\<rparr>"
  note a0 = started30_reach [of capture_fails]
  have r1: "world_reach (env_ok 1) capture_fails ''output.mp4'' 2 2 30 screen2 ?w1"
    using a0 by (blast intro: world_reach.step world_step.tick)
  have e: "sm_pc (w_sampler ?w1) = SReturned (Some (NewError ''capture failed''))"
    by (simp add: sampler_tick_def capture_fails_def)
  have c: "\<not> w_cancelled ?w1" "alive ?w1"
    using a0 by (simp_all add: alive_def sampler_tick_def capture_fails_def)
  have "world_step (env_ok 1) capture_fails ?w1 l w' \<longleftrightarrow> l = LSigint \<and> w' = ?w1\<lparr>w_cancelled := True\<rparr>"
    for l w'
    using capture_error_waits_for_sigint [OF r1 e c(1)] world_step.sigint [OF c(2,1)] by blast
  with r1 show ?thesis by auto
qed

lemma fps_zero_trailer_race_witness:
  "setup_ok (env_ok 1) \<and>
   (\<exists>w. world_reach (env_ok 1) capture_ok ''output.mp4'' 2 2 0 screen2 w \<and>
      oc_phase (s_out (w_sess w)) = HeaderWritten) \<and>
   (\<exists>w. world_reach (env_ok 1) capture_ok ''output.mp4'' 2 2 0 screen2 w \<and>
      oc_phase (s_out (w_sess w)) = TrailerWritten)"
proof -
  have h: "setup_ok (env_ok 1)"
    by (simp add: setup_ok_def env_ok_def mux_ok_def h264_registry_def FindEncoder_def)
  show ?thesis
    using fps_zero_trailer_race [OF h, of capture_ok "''output.mp4''" 2 2 screen2] h by blast
qed

lemma reachable_world_inv_witness:
  "world_reach (env_ok 1) capture_ok ''output.mp4'' 2 2 30 screen2
     (started30\<lparr>w_sampler := sampler_tick capture_ok (w_sampler started30)\<rparr>) \<and>
   world_inv (started30\<lparr>w_sampler := sampler_tick capture_ok (w_sampler started30)\<rparr>)"
proof -
  let ?w1 = "started30\<lparr>w_sampler := sampler_tick capture_ok (w_sampler started30)\<rparr>"
  note a0 = started30_reach [of capture_ok]
  have r1: "world_reach (env_ok 1) capture_ok ''output.mp4'' 2 2 30 screen2 ?w1"
    using a0 by (blast intro: world_reach.step world_step.tick)
  show ?thesis
    using r1 reachable_world_inv [OF r1] by blast
qed

end
