(* ===== verification/Logging.thy ===== *)
theory Logging
  imports Prelude
begin

text \<open>
  \<open>SetupFFmpeg\<close> (part_000, lines 12-26), the first call of StartScreenRecording
  (screencap.go, line 64): it sets FFmpeg's log level to \<open>LogLevelDebug\<close> and installs a
  callback that prints each FFmpeg message as
  \<open>"ffmpeg log: %s%s - level: %d\n"\<close> of the trimmed message, an optional
  \<open>" - class: "\<close> suffix and the level. The log state is a record; the callback is the
  function from its arguments to the formatted line (the time stamp that Go's
  \<open>log.Printf\<close> puts in front is not modelled). \<open>strings.TrimSpace\<close> and the \<open>%d\<close>
  verb are Go's library, modelled from their documentation on byte strings:
  TrimSpace removes the UTF-8 encodings of Unicode white space at both ends, and
  \<open>%d\<close> prints an optional minus sign and the decimal digits.
\<close>

type_synonym log_level = int

text \<open>FFmpeg's \<open>AV_LOG_INFO\<close> (the default level) and \<open>AV_LOG_DEBUG\<close>.\<close>

definition LogLevelInfo :: log_level where
  "LogLevelInfo = 32"

definition LogLevelDebug :: log_level where
  "LogLevelDebug = 48"

text \<open>The \<open>astiav.Classer\<close> argument: nil, one whose \<open>Class()\<close> is nil, or a class name.\<close>

datatype classer = NilClasser | Classer "string option"

section \<open>Go's formatting of integers (\<open>%d\<close>)\<close>

definition digit_char :: "nat \<Rightarrow> char" where
  "digit_char d = char_of (48 + d)"

function dec_digits :: "nat \<Rightarrow> string" where
  "dec_digits n = (if n < 10 then [digit_char n] else dec_digits (n div 10) @ [digit_char (n mod 10)])"
  by pat_completeness auto
termination
  by (relation "measure id") auto

declare dec_digits.simps [simp del]

definition go_itoa :: "int \<Rightarrow> string" where
  "go_itoa i = (if i < 0 then CHR ''-'' # dec_digits (nat (- i)) else dec_digits (nat i))"

section \<open>\<open>strings.TrimSpace\<close>\<close>

text \<open>
  The UTF-8 encodings of the characters \<open>unicode.IsSpace\<close> accepts: the six ASCII
  ones, U+0085, U+00A0, U+1680, U+2000 to U+200A, U+2028, U+2029, U+202F, U+205F,
  U+3000.
\<close>

definition space_encodings :: "string list" where
  "space_encodings =
     map (\<lambda>c. [c]) [CHR 0x09, CHR 0x0A, CHR 0x0B, CHR 0x0C, CHR 0x0D, CHR 0x20] @
     [[CHR 0xC2, CHR 0x85], [CHR 0xC2, CHR 0xA0], [CHR 0xE1, CHR 0x9A, CHR 0x80]] @
     map (\<lambda>b. [CHR 0xE2, CHR 0x80, char_of (b :: nat)]) [0x80..<0x8B] @
     [[CHR 0xE2, CHR 0x80, CHR 0xA8], [CHR 0xE2, CHR 0x80, CHR 0xA9], [CHR 0xE2, CHR 0x80, CHR 0xAF],
      [CHR 0xE2, CHR 0x81, CHR 0x9F], [CHR 0xE3, CHR 0x80, CHR 0x80]]"

definition space_prefix :: "string \<Rightarrow> nat" where
  "space_prefix s = (case filter (\<lambda>e. length e \<le> length s \<and> take (length e) s = e) space_encodings of
                       [] \<Rightarrow> 0 | e # _ \<Rightarrow> length e)"

definition space_suffix :: "string \<Rightarrow> nat" where
  "space_suffix s = (case filter (\<lambda>e. length e \<le> length s \<and> drop (length s - length e) s = e)
                                 space_encodings of
                       [] \<Rightarrow> 0 | e # _ \<Rightarrow> length e)"

lemma space_prefix_le: "space_prefix s \<le> length s"
  by (auto simp: space_prefix_def dest!: filter_eq_ConsD split: list.splits)

lemma space_suffix_le: "space_suffix s \<le> length s"
  by (auto simp: space_suffix_def dest!: filter_eq_ConsD split: list.splits)

function trim_left :: "string \<Rightarrow> string" where
  "trim_left s = (if space_prefix s = 0 then s else trim_left (drop (space_prefix s) s))"
  by pat_completeness auto
termination
proof (relation "measure length")
  fix s :: string assume "\<not> space_prefix s = 0"
  with space_prefix_le [of s] show "(drop (space_prefix s) s, s) \<in> measure length"
    by simp
qed simp

function trim_right :: "string \<Rightarrow> string" where
  "trim_right s = (if space_suffix s = 0 then s else trim_right (take (length s - space_suffix s) s))"
  by pat_completeness auto
termination
proof (relation "measure length")
  fix s :: string assume "\<not> space_suffix s = 0"
  with space_suffix_le [of s] show "(take (length s - space_suffix s) s, s) \<in> measure length"
    by simp
qed simp

declare trim_left.simps [simp del] trim_right.simps [simp del]

definition TrimSpace :: "string \<Rightarrow> string" where
  "TrimSpace s = trim_right (trim_left s)"

section \<open>The callback and the set-up\<close>

fun class_suffix :: "classer \<Rightarrow> string" where
  "class_suffix NilClasser = []"
| "class_suffix (Classer None) = []"
| "class_suffix (Classer (Some name)) = '' - class: '' @ name"

text \<open>Lines 17-25: the callback, as the line it hands to \<open>log.Printf\<close>.\<close>

definition ffmpeg_log_line :: "classer \<Rightarrow> log_level \<Rightarrow> string \<Rightarrow> string \<Rightarrow> string" where
  "ffmpeg_log_line c l fmt msg =
     ''ffmpeg log: '' @ TrimSpace msg @ class_suffix c @ '' - level: '' @ go_itoa l @ [CHR 0x0A]"

record log_state =
  ls_level :: log_level
  ls_callback :: "(classer \<Rightarrow> log_level \<Rightarrow> string \<Rightarrow> string \<Rightarrow> string) option"

definition ffmpeg_default_log :: log_state where
  "ffmpeg_default_log = \<lparr>ls_level = LogLevelInfo, ls_callback = None\<rparr>"

text \<open>Lines 13-26.\<close>

definition SetupFFmpeg :: "log_state \<Rightarrow> log_state" where
  "SetupFFmpeg st = st\<lparr>ls_level := LogLevelDebug, ls_callback := Some ffmpeg_log_line\<rparr>"

text \<open>
  What FFmpeg does with a message (go-astiav's C callback): a message above the
  current level is dropped; otherwise the installed callback formats it (without a
  callback FFmpeg prints it itself, which is not modelled: \<open>None\<close>).
\<close>

definition av_log :: "log_state \<Rightarrow> classer \<Rightarrow> log_level \<Rightarrow> string \<Rightarrow> string \<Rightarrow> string option" where
  "av_log st c l fmt msg =
     (if ls_level st < l then None
      else case ls_callback st of None \<Rightarrow> None | Some cb \<Rightarrow> Some (cb c l fmt msg))"

section \<open>Reading a log line back\<close>

definition is_digit :: "char \<Rightarrow> bool" where
  "is_digit c \<longleftrightarrow> 48 \<le> (of_char c :: nat) \<and> (of_char c :: nat) \<le> 57"

definition digit_val :: "char \<Rightarrow> nat" where
  "digit_val c = of_char c - 48"

definition parse_nat :: "string \<Rightarrow> nat option" where
  "parse_nat cs = (if cs \<noteq> [] \<and> list_all is_digit cs
                   then Some (foldl (\<lambda>a c. 10 * a + digit_val c) 0 cs) else None)"

definition parse_int :: "string \<Rightarrow> int option" where
  "parse_int cs = (case cs of [] \<Rightarrow> None
     | c # ds \<Rightarrow> if c = CHR ''-'' then map_option (\<lambda>n. - int n) (parse_nat ds)
                else map_option int (parse_nat cs))"

text \<open>The level of a log line: the number between the last space and the newline.\<close>

definition level_of_line :: "string \<Rightarrow> int option" where
  "level_of_line line =
     parse_int (rev (takeWhile (\<lambda>c. is_digit c \<or> c = CHR ''-'') (rev (butlast line))))"

lemma digit_char_digit:
  "d < 10 \<Longrightarrow> is_digit (digit_char d) \<and> digit_val (digit_char d) = d"
  by (simp add: digit_char_def is_digit_def digit_val_def)

lemma dec_digits_parse:
  "dec_digits n \<noteq> [] \<and> list_all is_digit (dec_digits n) \<and>
   foldl (\<lambda>a c. 10 * a + digit_val c) 0 (dec_digits n) = n"
proof (induction n rule: dec_digits.induct)
  case (1 n)
  show ?case
  proof (cases "n < 10")
    case True
    then show ?thesis
      using digit_char_digit [of n] by (simp add: dec_digits.simps)
  next
    case False
    then have "dec_digits n = dec_digits (n div 10) @ [digit_char (n mod 10)]"
      by (simp add: dec_digits.simps)
    with 1 False digit_char_digit [of "n mod 10"] show ?thesis
      by simp
  qed
qed

lemma parse_nat_dec_digits: "parse_nat (dec_digits n) = Some n"
  using dec_digits_parse [of n] by (simp add: parse_nat_def)

lemma minus_not_digit: "\<not> is_digit (CHR ''-'')"
  by (simp add: is_digit_def)

lemma parse_int_go_itoa: "parse_int (go_itoa i) = Some i"
proof (cases "i < 0")
  case True
  then show ?thesis
    by (simp add: go_itoa_def parse_int_def parse_nat_dec_digits)
next
  case False
  obtain c cs where d: "dec_digits (nat i) = c # cs"
    using dec_digits_parse [of "nat i"] by (cases "dec_digits (nat i)") auto
  with dec_digits_parse [of "nat i"] have "c \<noteq> CHR ''-''"
    using minus_not_digit by auto
  with False d show ?thesis
    using parse_nat_dec_digits [of "nat i"] by (simp add: go_itoa_def parse_int_def)
qed

lemma go_itoa_chars: "\<forall>c \<in> set (go_itoa i). is_digit c \<or> c = CHR ''-''"
  using dec_digits_parse by (auto simp: go_itoa_def list_all_iff)

lemma space_encodings_prefix_free:
  "\<forall>e \<in> set space_encodings. e \<noteq> [] \<and> (\<forall>e' \<in> set space_encodings.
     take (length e') e = e' \<or> take (length e) e' = e \<longrightarrow> e = e')"
  by code_simp

lemma space_prefix_encoding:
  assumes "e \<in> set space_encodings"
  shows "space_prefix (e @ rest) = length e"
proof -
  let ?P = "\<lambda>e'. length e' \<le> length (e @ rest) \<and> take (length e') (e @ rest) = e'"
  have "?P e" by simp
  with assms have ne: "filter ?P space_encodings \<noteq> []"
    by (metis (mono_tags, lifting) filter_empty_conv)
  then obtain e' r where f: "filter ?P space_encodings = e' # r"
    by (cases "filter ?P space_encodings") auto
  then obtain us vs where d: "space_encodings = us @ e' # vs" and p: "?P e'"
    using filter_eq_ConsD [of ?P space_encodings e' r] by blast
  have e': "e' \<in> set space_encodings" "take (length e') (e @ rest) = e'"
    using in_set_conv_decomp [of e' space_encodings] d p by blast+
  have "take (length e') e = e' \<or> take (length e) e' = e"
  proof (cases "length e' \<le> length e")
    case True
    with e'(2) show ?thesis by simp
  next
    case False
    then have "take (length e) (take (length e') (e @ rest)) = e"
      by (simp add: min_def)
    with e'(2) show ?thesis by simp
  qed
  with space_encodings_prefix_free assms e'(1) have "e' = e"
    by blast
  with f show ?thesis
    by (simp add: space_prefix_def)
qed

lemma trim_left_encoding:
  "e \<in> set space_encodings \<Longrightarrow> trim_left (e @ rest) = trim_left rest"
  using space_prefix_encoding [of e rest] space_encodings_prefix_free
  by (subst trim_left.simps) auto

lemma trim_left_spaces:
  "set ws \<subseteq> set space_encodings \<Longrightarrow> trim_left (concat ws @ msg) = trim_left msg"
  by (induction ws) (simp_all add: trim_left_encoding)

lemma space_encodings_no_span:
  "\<forall>e \<in> set space_encodings. \<forall>e' \<in> set space_encodings. \<forall>k \<in> set [1..<length e]. e ! k \<noteq> hd e'"
  by code_simp

lemma space_encodings_suffix_free:
  "\<forall>e \<in> set space_encodings. e \<noteq> [] \<and> (\<forall>e' \<in> set space_encodings.
     drop (length e - length e') e = e' \<or> drop (length e' - length e) e' = e \<longrightarrow> e = e')"
  by code_simp

lemma spaces_start_concat:
  "set ws \<subseteq> set space_encodings \<Longrightarrow> (concat ws = [] \<or> (\<exists>e \<in> set space_encodings. \<exists>t'. concat ws = e @ t'))"
  by (cases ws) auto

lemma space_prefix_append:
  assumes r: "r \<noteq> []" and t: "t = [] \<or> (\<exists>e \<in> set space_encodings. \<exists>t'. t = e @ t')"
  shows "space_prefix (r @ t) = space_prefix r"
proof -
  let ?P = "\<lambda>s e. length e \<le> length s \<and> take (length e) s = e"
  have "?P (r @ t) e = ?P r e" if e: "e \<in> set space_encodings" for e
  proof (cases "length e \<le> length r")
    case True
    then show ?thesis by simp
  next
    case False
    have "\<not> ?P (r @ t) e"
    proof
      assume p: "?P (r @ t) e"
      then have "t \<noteq> []" using False by auto
      with t obtain e' t' where e': "e' \<in> set space_encodings" "t = e' @ t'"
        by auto
      have ne': "e' \<noteq> []" using space_encodings_prefix_free e'(1) by blast
      have "length r \<in> set [1..<length e]" using False r by (cases r) auto
      then have "e ! length r \<noteq> hd e'" using space_encodings_no_span e e'(1) by blast
      moreover have "e ! length r = (r @ t) ! length r"
        using p False by (metis nth_take not_le)
      moreover have "(r @ t) ! length r = hd e'"
        using e'(2) ne' by (simp add: hd_conv_nth nth_append)
      ultimately show False by simp
    qed
    with False show ?thesis by simp
  qed
  then have "filter (?P (r @ t)) space_encodings = filter (?P r) space_encodings"
    by (intro filter_cong) simp_all
  then show ?thesis by (simp add: space_prefix_def)
qed

lemma trim_left_Nil [simp]:
  "trim_left [] = []"
  using space_prefix_le [of "[]"] by (subst trim_left.simps) simp

lemma trim_left_append:
  assumes t: "t = [] \<or> (\<exists>e \<in> set space_encodings. \<exists>t'. t = e @ t')"
  shows "trim_left (r @ t) = (if trim_left r = [] then trim_left t else trim_left r @ t)"
proof (induction r rule: trim_left.induct)
  case (1 r)
  show ?case
  proof (cases "r = []")
    case True
    then show ?thesis by simp
  next
    case False
    note sp = space_prefix_append [OF False t]
    show ?thesis
    proof (cases "space_prefix r = 0")
      case True
      with False sp show ?thesis
        by (simp add: trim_left.simps [of "r @ t"] trim_left.simps [of r])
    next
      case nz: False
      have le: "space_prefix r \<le> length r" by (rule space_prefix_le)
      have "trim_left (r @ t) = trim_left (drop (space_prefix r) r @ t)"
        using nz sp le by (simp add: trim_left.simps [of "r @ t"])
      also have "\<dots> = (if trim_left (drop (space_prefix r) r) = [] then trim_left t
                        else trim_left (drop (space_prefix r) r) @ t)"
        using "1.IH" nz by simp
      finally show ?thesis
        using nz by (simp add: trim_left.simps [of r])
    qed
  qed
qed

lemma space_suffix_encoding:
  assumes "e \<in> set space_encodings"
  shows "space_suffix (s @ e) = length e"
proof -
  let ?P = "\<lambda>e'. length e' \<le> length (s @ e) \<and> drop (length (s @ e) - length e') (s @ e) = e'"
  have "?P e" by simp
  with assms have ne: "filter ?P space_encodings \<noteq> []"
    by (metis (mono_tags, lifting) filter_empty_conv)
  then obtain e' r where f: "filter ?P space_encodings = e' # r"
    by (cases "filter ?P space_encodings") auto
  then obtain us vs where d: "space_encodings = us @ e' # vs" and p: "?P e'"
    using filter_eq_ConsD [of ?P space_encodings e' r] by blast
  have e': "e' \<in> set space_encodings" "drop (length (s @ e) - length e') (s @ e) = e'"
    using in_set_conv_decomp [of e' space_encodings] d p by blast+
  have "drop (length e - length e') e = e' \<or> drop (length e' - length e) e' = e"
  proof (cases "length e' \<le> length e")
    case True
    with e'(2) show ?thesis by simp
  next
    case False
    define d where "d = length e' - length e"
    have dle: "d \<le> length s" using conjunct1 [OF p] by (simp add: d_def)
    have n: "length (s @ e) - length e' = length s - d"
      using False p by (simp add: d_def)
    have "e' = drop (length s - d) s @ e"
      using e'(2) n by simp
    moreover have "length (drop (length s - d) s) = d"
      using dle by simp
    ultimately have "drop d e' = e"
      by (metis append_eq_conv_conj)
    then show ?thesis by (simp add: d_def)
  qed
  with space_encodings_suffix_free assms e'(1) have "e' = e"
    by blast
  with f show ?thesis
    by (simp add: space_suffix_def)
qed

lemma trim_right_encoding:
  "e \<in> set space_encodings \<Longrightarrow> trim_right (s @ e) = trim_right s"
  using space_suffix_encoding [of e s] space_encodings_suffix_free
  by (subst trim_right.simps) auto

lemma trim_right_spaces:
  "set ws \<subseteq> set space_encodings \<Longrightarrow> trim_right (msg @ concat ws) = trim_right msg"
proof (induction ws rule: rev_induct)
  case (snoc e ws)
  then show ?case
    using trim_right_encoding [of e "msg @ concat ws"] by simp
qed simp

lemma TrimSpace_trailing:
  assumes "set ws \<subseteq> set space_encodings"
  shows "TrimSpace (msg @ concat ws) = TrimSpace msg"
proof (cases "trim_left msg = []")
  case True
  have "trim_left (concat ws) = []"
    using trim_left_spaces [OF assms, of "[]"] by simp
  with True show ?thesis
    by (simp add: TrimSpace_def trim_left_append [OF spaces_start_concat [OF assms]])
next
  case False
  then show ?thesis
    by (simp add: TrimSpace_def trim_left_append [OF spaces_start_concat [OF assms]]
        trim_right_spaces [OF assms])
qed

text \<open>
  C26: the level of every line the callback prints can be read back: the number
  between the last space and the newline is the level, whatever the message and
  the class name contain.
\<close>

theorem ffmpeg_log_line_level_roundtrip:
  "level_of_line (ffmpeg_log_line c l fmt msg) = Some l"
proof -
  let ?P = "\<lambda>c. is_digit c \<or> c = CHR ''-''"
  let ?A = "''ffmpeg log: '' @ TrimSpace msg @ class_suffix c @ '' - level:''"
  have "rev (butlast (ffmpeg_log_line c l fmt msg)) = rev (go_itoa l) @ CHR '' '' # rev ?A"
    by (simp add: ffmpeg_log_line_def butlast_append)
  moreover have "takeWhile ?P (rev (go_itoa l) @ CHR '' '' # rev ?A) =
      rev (go_itoa l) @ takeWhile ?P (CHR '' '' # rev ?A)"
    by (rule takeWhile_append2) (use go_itoa_chars [of l] in auto)
  moreover have "takeWhile ?P (CHR '' '' # rev ?A) = []"
    by (simp add: is_digit_def)
  ultimately show ?thesis
    by (simp add: level_of_line_def parse_int_go_itoa)
qed

text \<open>
  C27: white space before an FFmpeg message, ASCII or any other Unicode space in
  UTF-8, does not reach the log: the callback prints the same line with or without it.
\<close>

theorem ffmpeg_log_line_leading_space:
  assumes "set ws \<subseteq> set space_encodings"
  shows "ffmpeg_log_line c l fmt (concat ws @ msg) = ffmpeg_log_line c l fmt msg"
  using trim_left_spaces [OF assms] by (simp add: ffmpeg_log_line_def TrimSpace_def)

lemma ffmpeg_log_line_leading_space_witness:
  "set [[CHR 0x20], [CHR 0xC2, CHR 0xA0]] \<subseteq> set space_encodings \<and>
   ffmpeg_log_line (Classer (Some ''h264'')) 48 [] (concat [[CHR 0x20], [CHR 0xC2, CHR 0xA0]] @ ''hi'') =
   ''ffmpeg log: hi - class: h264 - level: 48'' @ [CHR 0x0A]"
proof -
  have h: "set [[CHR 0x20], [CHR 0xC2, CHR 0xA0]] \<subseteq> set space_encodings"
    by code_simp
  have "ffmpeg_log_line (Classer (Some ''h264'')) 48 [] ''hi'' = ''ffmpeg log: hi - class: h264 - level: 48'' @ [CHR 0x0A]"
    by code_simp
  then show ?thesis
    using ffmpeg_log_line_leading_space [OF h] h by simp
qed

text \<open>
  C21: white space after an FFmpeg message (FFmpeg ends its messages with a newline)
  does not reach the printed line either: \<open>TrimSpace\<close> trims both ends, so the
  newline the callback adds itself is the line's only line break.
\<close>

theorem ffmpeg_log_line_trailing_space:
  assumes "set ws \<subseteq> set space_encodings"
  shows "ffmpeg_log_line c l fmt (msg @ concat ws) = ffmpeg_log_line c l fmt msg"
  using TrimSpace_trailing [OF assms] by (simp add: ffmpeg_log_line_def)

lemma ffmpeg_log_line_trailing_space_witness:
  "set [[CHR 0x0A]] \<subseteq> set space_encodings \<and>
   ffmpeg_log_line NilClasser 48 [] (''Opening output'' @ concat [[CHR 0x0A]]) =
     ''ffmpeg log: Opening output - level: 48'' @ [CHR 0x0A]"
proof -
  have h: "set [[CHR 0x0A]] \<subseteq> set space_encodings" by code_simp
  have "ffmpeg_log_line NilClasser 48 [] ''Opening output'' = ''ffmpeg log: Opening output - level: 48'' @ [CHR 0x0A]"
    by code_simp
  with h ffmpeg_log_line_trailing_space [OF h, of NilClasser 48 "[]" "''Opening output''"] show ?thesis
    by simp
qed

end
