(* ===== verification/DrainLoop.thy ===== *)
theory DrainLoop
  imports Pipeline
begin

text \<open>
  The packet loop of \<open>StartScreenRecording\<close> (screencap.go, lines 187-206) as Go
  writes it: a \<open>for {}\<close> with no bound, whose body either breaks, returns, or goes
  round again. \<open>drain_iter\<close> is one pass of the body and \<open>drain_fuel\<close> runs
  it at most \<open>n\<close> times (\<open>None\<close>: the loop had not left after \<open>n\<close> passes).
  Pipeline's \<open>drain\<close> is the same loop written as a terminating recursion. The
  reference \<open>drain_batch\<close> first receives every packet the encoder has ready
  (Encoder's \<open>drain_encoder\<close>) and then writes them in order with
  \<open>write_packets\<close>, stopping at the first failed write. The lemmas show that the
  Go loop always leaves within one pass more than the encoder holds frames, and that
  interleaving receives and writes as the code does is the same as the batch.
\<close>

text \<open>Lines 188-205: one pass of the loop body.\<close>

definition drain_iter :: "rec_env \<Rightarrow> session \<Rightarrow> (session \<times> exit_reason option) + session" where
  "drain_iter env s =
     (case ReceivePacket (s_enc s) of
        (Inl e, ec) \<Rightarrow>
          if e = ErrEof \<or> e = ErrEagain then Inl (s\<lparr>s_enc := ec\<rparr>, None)
          else Inl (push_defer DeferCtxDone (s\<lparr>s_enc := ec\<rparr>), Some (ErrEncode e))
      | (Inr p, ec) \<Rightarrow>
          (case WriteFrame (r_mux env) (rescale_to_stream s p) (s_out s) of
             (Some e, oc) \<Rightarrow> Inl (push_defer DeferCtxDone (s\<lparr>s_enc := ec, s_out := oc\<rparr>), Some (ErrWritePacket e))
           | (None, oc) \<Rightarrow> Inr (s\<lparr>s_enc := ec, s_out := oc\<rparr>)))"

text \<open>Lines 187 and 206: the \<open>for {}\<close> itself, with a bound on the passes.\<close>

primrec drain_fuel :: "nat \<Rightarrow> rec_env \<Rightarrow> session \<Rightarrow> (session \<times> exit_reason option) option" where
  "drain_fuel 0 env s = None"
| "drain_fuel (Suc n) env s = (case drain_iter env s of Inl r \<Rightarrow> Some r | Inr s' \<Rightarrow> drain_fuel n env s')"

text \<open>
  The reference: write a list of packets in order, stopping at the first error; the
  count is the number of packets written before it.
\<close>

fun write_packets :: "mux_env \<Rightarrow> packet list \<Rightarrow> output_ctx \<Rightarrow> averror option \<times> nat \<times> output_ctx" where
  "write_packets menv [] oc = (None, 0, oc)"
| "write_packets menv (p # ps) oc =
     (case WriteFrame menv p oc of
        (None, oc') \<Rightarrow> (case write_packets menv ps oc' of (r, k, oc'') \<Rightarrow> (r, Suc k, oc''))
      | (Some e, oc') \<Rightarrow> (Some e, 0, oc'))"

definition drain_batch :: "rec_env \<Rightarrow> session \<Rightarrow> session \<times> exit_reason option" where
  "drain_batch env s =
     (case drain_encoder (s_enc s) of
        (ps, e, ec) \<Rightarrow>
          (case write_packets (r_mux env) (map (rescale_to_stream s) ps) (s_out s) of
             (None, _, oc) \<Rightarrow>
               if e = ErrEof \<or> e = ErrEagain then (s\<lparr>s_enc := ec, s_out := oc\<rparr>, None)
               else (push_defer DeferCtxDone (s\<lparr>s_enc := ec, s_out := oc\<rparr>), Some (ErrEncode e))
           | (Some we, k, oc) \<Rightarrow>
               (push_defer DeferCtxDone
                  (s\<lparr>s_enc := (s_enc s)\<lparr>enc_queue := drop (Suc k) (enc_queue (s_enc s))\<rparr>, s_out := oc\<rparr>),
                Some (ErrWritePacket we))))"

section \<open>One pass of the loop\<close>

lemma WriteFrame_stream_tb:
  "WriteFrame menv p oc = (r, oc') \<Longrightarrow> oc_stream_tb oc' = oc_stream_tb oc"
  by (auto simp: WriteFrame_def split: if_splits option.splits)

lemma rescale_to_stream_upd:
  "oc_stream_tb oc = oc_stream_tb (s_out s) \<Longrightarrow>
     rescale_to_stream (s\<lparr>s_enc := ec, s_out := oc\<rparr>) = rescale_to_stream s"
  by (simp add: rescale_to_stream_def fun_eq_iff)

lemma drain_iter_drain:
  "drain env s = (case drain_iter env s of Inl r \<Rightarrow> r | Inr s' \<Rightarrow> drain env s')"
  by (subst drain.simps) (simp add: drain_iter_def split: prod.splits sum.splits option.splits)

lemma drain_iter_shorter:
  "drain_iter env s = Inr s' \<Longrightarrow> length (enc_queue (s_enc s')) < length (enc_queue (s_enc s))"
  by (auto simp: drain_iter_def split: prod.splits sum.splits option.splits if_splits
           dest: ReceivePacket_Inr_shorter [OF sym])

section \<open>The loop leaves\<close>

text \<open>
  C14: the unbounded \<open>for {}\<close> of lines 187-206 always leaves, by a break or a
  return, within \<open>q + 1\<close> passes when the encoder holds \<open>q\<close> frames (every pass
  that goes round again has taken a packet from the encoder), and what it leaves with
  is what \<open>drain\<close> computes.
\<close>

theorem drain_loop_terminates:
  "drain_fuel (length (enc_queue (s_enc s)) + Suc k) env s = Some (drain env s)"
proof (induction "length (enc_queue (s_enc s))" arbitrary: s k rule: less_induct)
  case less
  show ?case
  proof (cases "drain_iter env s")
    case (Inl r)
    then show ?thesis
      unfolding drain_iter_drain [of env s] by simp
  next
    case (Inr s')
    then have lt: "length (enc_queue (s_enc s')) < length (enc_queue (s_enc s))"
      by (rule drain_iter_shorter)
    then obtain j where "length (enc_queue (s_enc s)) = Suc (length (enc_queue (s_enc s')) + j)"
      using less_imp_Suc_add by blast
    then have f: "length (enc_queue (s_enc s)) + Suc k = Suc (length (enc_queue (s_enc s')) + Suc (j + k))"
      by simp
    show ?thesis
      unfolding f drain_fuel.simps drain_iter_drain [of env s] Inr sum.case
      by (rule less [OF lt])
  qed
qed

section \<open>Interleaved receive and write is receive all, then write all\<close>

lemma drain_batch_Inl:
  assumes "ReceivePacket (s_enc s) = (Inl e, ec)"
  shows "drain_batch env s =
    (if e = ErrEof \<or> e = ErrEagain then (s\<lparr>s_enc := ec\<rparr>, None)
     else (push_defer DeferCtxDone (s\<lparr>s_enc := ec\<rparr>), Some (ErrEncode e)))"
proof -
  have "ec = s_enc s" using assms by (rule ReceivePacket_Inl_same)
  then show ?thesis
    using assms by (simp add: drain_batch_def drain_encoder.simps [of "s_enc s"])
qed

lemma drain_batch_write_fail:
  assumes "ReceivePacket (s_enc s) = (Inr p, ec)"
    "WriteFrame (r_mux env) (rescale_to_stream s p) (s_out s) = (Some we, oc)"
  shows "drain_batch env s =
    (push_defer DeferCtxDone (s\<lparr>s_enc := ec, s_out := oc\<rparr>), Some (ErrWritePacket we))"
proof -
  from ReceivePacket_Inr_queue [OF assms(1)]
  have "ec = (s_enc s)\<lparr>enc_queue := tl (enc_queue (s_enc s))\<rparr>"
    by blast
  then have q: "ec = (s_enc s)\<lparr>enc_queue := drop (Suc 0) (enc_queue (s_enc s))\<rparr>"
    by (simp add: drop_Suc)
  obtain ps e ec' where d: "drain_encoder ec = (ps, e, ec')" by (metis prod.exhaust)
  then have "drain_encoder (s_enc s) = (p # ps, e, ec')"
    using assms(1) by (simp add: drain_encoder.simps [of "s_enc s"])
  then show ?thesis
    using assms(2) q by (simp add: drain_batch_def)
qed

lemma drain_batch_write_ok:
  assumes "ReceivePacket (s_enc s) = (Inr p, ec)"
    "WriteFrame (r_mux env) (rescale_to_stream s p) (s_out s) = (None, oc)"
  shows "drain_batch env s = drain_batch env (s\<lparr>s_enc := ec, s_out := oc\<rparr>)"
proof -
  from ReceivePacket_Inr_queue [OF assms(1)]
  have q1: "enc_queue (s_enc s) = pkt_pts p # enc_queue ec"
    and q: "ec = (s_enc s)\<lparr>enc_queue := tl (enc_queue (s_enc s))\<rparr>"
    by blast+
  have r: "rescale_to_stream (s\<lparr>s_enc := ec, s_out := oc\<rparr>) = rescale_to_stream s"
    using WriteFrame_stream_tb [OF assms(2)] by (rule rescale_to_stream_upd)
  have dq: "drop (Suc k) (tl (enc_queue (s_enc s))) = drop (Suc (Suc k)) (enc_queue (s_enc s))" for k
    using q1 by simp
  obtain ps e ec' where d: "drain_encoder ec = (ps, e, ec')" by (metis prod.exhaust)
  then have "drain_encoder (s_enc s) = (p # ps, e, ec')"
    using assms(1) by (simp add: drain_encoder.simps [of "s_enc s"])
  then show ?thesis
    using assms(2) d r q dq by (simp add: drain_batch_def split: prod.splits option.splits)
qed

lemma drain_batch_iter:
  "drain_batch env s = (case drain_iter env s of Inl r \<Rightarrow> r | Inr s' \<Rightarrow> drain_batch env s')"
proof (cases "ReceivePacket (s_enc s)")
  case (Pair r ec)
  then show ?thesis
  proof (cases r)
    case (Inl e)
    note rp = Pair [unfolded Inl]
    show ?thesis
      unfolding drain_batch_Inl [OF rp] by (simp add: drain_iter_def rp)
  next
    case (Inr p)
    show ?thesis
    proof (cases "WriteFrame (r_mux env) (rescale_to_stream s p) (s_out s)")
      case (Pair w oc)
      note rp = \<open>ReceivePacket (s_enc s) = (r, ec)\<close> [unfolded Inr]
      show ?thesis
      proof (cases w)
        case None
        with Pair have wf: "WriteFrame (r_mux env) (rescale_to_stream s p) (s_out s) = (None, oc)" by simp
        have di: "drain_iter env s = Inr (s\<lparr>s_enc := ec, s_out := oc\<rparr>)"
          using rp wf by (simp add: drain_iter_def)
        show ?thesis
          unfolding di sum.case by (rule drain_batch_write_ok [OF rp wf])
      next
        case (Some we)
        with Pair have wf: "WriteFrame (r_mux env) (rescale_to_stream s p) (s_out s) = (Some we, oc)" by simp
        have di: "drain_iter env s = Inl (push_defer DeferCtxDone (s\<lparr>s_enc := ec, s_out := oc\<rparr>), Some (ErrWritePacket we))"
          using rp wf by (simp add: drain_iter_def)
        show ?thesis
          unfolding di sum.case by (rule drain_batch_write_fail [OF rp wf])
      qed
    qed
  qed
qed

text \<open>
  C13: the code's loop, which writes each packet as soon as it receives it, has the
  same result as receiving every ready packet first and writing them afterwards: the
  same packets in the same order in the file, the same encoder state, the same exit
  reason, and on a failed write the encoder keeps exactly the packets after the
  failed one (they are lost to the file).
\<close>

theorem drain_receive_then_write:
  "drain env s = drain_batch env s"
proof (induction "length (enc_queue (s_enc s))" arbitrary: s rule: less_induct)
  case less
  show ?case
  proof (cases "drain_iter env s")
    case (Inl r)
    then show ?thesis by (simp add: drain_iter_drain [of env s] drain_batch_iter [of env s])
  next
    case (Inr s')
    then have "drain env s' = drain_batch env s'"
      by (intro less drain_iter_shorter)
    then show ?thesis
      unfolding drain_iter_drain [of env s] drain_batch_iter [of env s] Inr sum.case .
  qed
qed

end
