(* ===== verification/Container.thy ===== *)
theory Container
  imports DrainLoop Orchestrator
begin











end
