(* ===== verification/Spec2Isabelle.thy ===== *)
theory Spec2Isabelle
  imports Concurrency Logging Container
begin

text \<open>
  \<^bold>\<open>A verification model of the go-astiav screen recorder.\<close>

  The program (src/examples/screenrecorder/screencap.go and src/unnamed/part_000) records
  the screen into an MP4 file. \<open>main\<close> calls \<open>StartScreenRecording(filename, w, h, 30)\<close>,
  which sets up an FFmpeg output container and an H.264 encoder, creates the sampler
  goroutine \<open>StartScreenCap\<close> (a ticker that captures a screenshot per tick and sends it
  on an unbuffered channel), and then runs a select loop: each received image is
  converted to YUV 4:2:0 by \<open>ImageRGBAtoAVFrame\<close>, stamped with the int64 product
  \<open>frameNumber * (90000 / fps)\<close>, sent to the encoder, and every packet the encoder
  returns is rescaled to the stream's time base and written. SIGINT cancels the
  context; every return of \<open>StartScreenRecording\<close> runs its Go defer stack, which writes
  the trailer and frees the contexts. \<open>SetupFFmpeg\<close> installs FFmpeg's log level and a
  log callback.

  \<^bold>\<open>Theories and what they model.\<close>
  \<^item> Prelude: int64 as \<open>64 word\<close> with its wrap-around (\<open>sint_of_nat_mult\<close>,
    \<open>sint_mult_wrap\<close>), Go's truncating division with its panic (\<open>go_div\<close>), the error
    values of go-astiav (\<open>averror\<close>, \<open>go_error\<close>), resource traces
    (\<open>Acquire\<close>/\<open>Release\<close> events, \<open>leaked\<close>) and the \<open>container_wf\<close> collection.
  \<^item> Timebase: \<open>AVRational\<close>, \<open>av_rescale_q\<close> with FFmpeg's rounding and overflow
    value, \<open>av_packet_rescale_ts\<close> (FFmpeg, modelled from the spec and its documented
    arithmetic).
  \<^item> FrameConverter: \<open>ImageRGBAtoAVFrame\<close> (part_000, lines 28-104) call by call,
    each of its six error returns a branch, and its deferred frees as a trace; the
    FFmpeg calls it makes with outcomes chosen by the oracle record \<open>conv_env\<close>.
  \<^item> Encoder: \<open>NewH264EncoderCodec\<close> (part_000, lines 106-142) and the libavcodec
    encoder as a state machine (a FIFO of submitted pts with a lookahead of
    \<open>enc_delay\<close> frames, \<open>SendFrame\<close>, \<open>ReceivePacket\<close> with EAGAIN/EOF, the end of
    stream signal), modelled from spec section 4.2.
  \<^item> Muxer: the libavformat output context (phases Unopened, HeaderWritten,
    TrailerWritten, strictly increasing dts, a misuse flag for out-of-order calls),
    modelled from spec section 4.4; \<open>oc_wf\<close>, the container's well-formedness, and
    one lemma per operation that keeps it.
  \<^item> Pipeline: \<open>StartScreenRecording\<close> (screencap.go, lines 63-209) as its consumer
    goroutine runs it: \<open>setup_recording\<close> (lines 64-131, every early return a value of
    \<open>exit_reason\<close>), \<open>pts_increment\<close> (line 147), \<open>process_image\<close> (lines 155-206),
    \<open>drain\<close> (lines 186-206), \<open>consume\<close> (the select loop, over a list of outcomes: an
    image, or \<open>ctx.Done()\<close>), and \<open>finish\<close>/\<open>run_defers\<close> (the Go defer stack,
    last in first out). The session record holds the state the code keeps in local
    variables, plus the defer stack and an event trace.
  \<^item> DrainLoop: the packet loop as Go writes it, an unbounded \<open>for {}\<close> (one pass
    \<open>drain_iter\<close>, iterated by \<open>drain_fuel\<close>), and the reference \<open>drain_batch\<close>:
    receive every ready packet, then write them in order.
  \<^item> Orchestrator: the invariants of the loop: \<open>flow_inv\<close> (packets in the file and
    frames in the encoder together are the frames sent, in order), \<open>loop_inv\<close> (the
    exact state at the top of the select loop after \<open>n\<close> images) and \<open>exit_inv\<close> (the
    state at a return from inside the loop), with the lemmas that preserve them.
  \<^item> Scenarios: concrete library behaviours and screenshots used by the witnesses.
  \<^item> Recording: what a whole call of \<open>StartScreenRecording\<close> does, from the invariants
    and the way \<open>finish\<close> runs the defer stack.
  \<^item> Container: the container is well-formed after every operation of the recorder.
  \<^item> Sampler: \<open>StartScreenCap\<close> (screencap.go, lines 13-41) as a state machine:
    \<open>sampler_go\<close> (the goroutine created at line 137, not yet run),
    \<open>sampler_start\<close>/\<open>StartScreenCap\<close> (lines 13-22: \<open>wait_time\<close> with Go's
    division and the panic of \<open>NewTicker\<close>), and one function per select branch
    (\<open>sampler_done\<close>, \<open>sampler_tick\<close>, \<open>sampler_sent\<close>); the screenshot library is
    the oracle \<open>capture_fn\<close>.
  \<^item> Concurrency: the program as it runs: \<open>start_world\<close> (the set-up, the goroutine's
    creation and the pts computation, whose panic starts the consumer's unwinding), and
    the inductive relation \<open>world_step\<close> interleaving SIGINT, the sampler's first step,
    ticks, the sampler's \<open>ctx.Done()\<close> branch, the hand-off through the unbuffered
    channel (\<open>consumer_receive\<close>, which runs \<open>process_image\<close> and, on a return, the
    defer stack), the consumer's \<open>ctx.Done()\<close> branch (\<open>consumer_done\<close>) and the
    unwinding of the consumer's panic (\<open>consumer_unwind\<close>). Select is
    nondeterministic; the process ends when \<open>StartScreenRecording\<close> returns or a panic
    has unwound. \<open>world_sim\<close> shows, by rule induction, that the consumer of every
    interleaving is the sequential model applied to the select outcomes it took, so
    the theorems of Recording hold of every interleaving; \<open>world_inv\<close> is the
    invariant of every reachable world.
  \<^item> Logging: \<open>SetupFFmpeg\<close> and its callback (part_000, lines 12-26): the line
    printed for a message (\<open>ffmpeg_log_line\<close>, with \<open>strings.TrimSpace\<close> over the
    UTF-8 encodings of Unicode white space and \<open>%d\<close> as \<open>go_itoa\<close>), a reference
    parser that reads the level back, and FFmpeg's level filter (\<open>av_log\<close>).

  \<^bold>\<open>What is proved.\<close> The finalization of the file on every return after the header
  (trailer exactly once, after \<open>stop()\<close>, with no out-of-order container call); the
  release of everything a failed set-up acquired, in reverse order; that the only
  leaked objects are converted frames, exactly one per image consumed; the container's
  well-formedness on every path; the exact packets in the file after an interrupt,
  with their timestamps \<open>i * (90000 div fps)\<close>, and the frames left in the encoder
  (the code never flushes it); the int64 wrap of \<open>frameNumber * pts\<close> and the send
  error it causes; the packet loop's termination within one pass more than the
  encoder's queue, and its equivalence with receive-all-then-write-all; the behaviour
  for \<open>fps > 90000\<close> (a zero pts increment); the bit rate 0 the encoder is opened
  with; the success condition, result and resource behaviour of
  \<open>ImageRGBAtoAVFrame\<close>; the configuration built by \<open>NewH264EncoderCodec\<close>; the
  sampler's tick interval. Of the interleavings: the refinement of the sequential
  model with images delivered in capture order; the invariant of every reachable
  world (ticker running exactly while the sampler loops, no misuse, no header left
  without trailer by a returned consumer); that a capture error leaves the program
  waiting for SIGINT; that a cancelled context does not stop the consumer from
  taking one more image; that with \<open>fps = 0\<close> the two goroutines' panics race and
  the file may be left without its trailer. Of the log callback: the level can be
  read back from every line, and white space around a message does not reach it.

  \<^bold>\<open>Bounds and fuel.\<close> The packet loop is modelled twice: as a recursion that
  terminates by the measure of the encoder queue, and as Go's \<open>for {}\<close> with a
  bound on the passes, where \<open>q + 1\<close> passes are proved enough for a queue of
  \<open>q\<close> frames. The select loop is a structural recursion over the list of outcomes
  it is given (running out of outcomes is the goroutine still waiting); the trims of
  \<open>TrimSpace\<close> terminate by the length of the string. Wall-clock time is not
  modelled: a tick, the sampler's first step or SIGINT may happen at any point
  between two other events, which over-approximates every timing the scheduler and
  the ticker allow. int64 timestamps are \<open>64 word\<close> values read with \<open>sint\<close>, so
  \<open>frameNumber * pts\<close> wraps as in Go; the timestamp theorem assumes
  \<open>n * (90000 div fps)\<close> fits int64 (true for any recording shorter than about
  3 * 10^9 years at 30 fps), and the wrap theorem covers the products beyond it.

  \<^bold>\<open>Not modelled.\<close> The call of \<open>SetupFFmpeg\<close> at line 64 is left out of
  \<open>setup_recording\<close> (it only changes logging, modelled on its own in Logging); the
  timestamp prefix of \<open>log.Printf\<close> and the writes to stdout and stderr; the pixel
  values computed by swscale and the bit stream produced by libx264 (black boxes: a
  frame is modelled by its size, format and a symbolic record of its pixels, a packet
  by its timestamps, with pts = dts and no B-frame reordering, and no fatal encoder
  error, so lines 191-195 cannot run in the model); the screenshot library (an
  oracle). \<open>AllocFrame\<close> returning nil is not modelled (the code does not check it).
  The consumer's steps are atomic: a received image with all its calls, and the
  unwinding of its defer stack; the sampler may run between any two of them.
\<close>

end
